theory Spec2Isabelle
  imports Complex_Main "HOL-Library.AList" "HOL-Library.Log_Nat"
begin

section \<open>Python values and errors\<close>

text \<open>
  The exceptions the modelled code can raise. A function that can raise returns
  \<open>error + 'a\<close>, with \<open>Inl\<close> for the exception.
\<close>

datatype error = AttributeError | KeyError | IndexError | TypeError | RuntimeError

definition ebind :: "error + 'a \<Rightarrow> ('a \<Rightarrow> error + 'b) \<Rightarrow> error + 'b" where
  "ebind m k = (case m of Inl e \<Rightarrow> Inl e | Inr x \<Rightarrow> k x)"

subsection \<open>Floats\<close>

text \<open>
  A Python float is an IEEE 754 binary64 number. It is modelled by the rational it
  stands for: a float of the program is a rational \<open>x\<close> with \<open>to_double x = x\<close>. Every
  operation on floats gives the exact result rounded to the nearest double, a tie going
  to the double with the even significand. Infinities and NaN are not represented: the
  operations below, \<open>1 - x\<close> and \<open>round(x, 3)\<close>, give a finite double on every finite one.
\<close>

definition round_half_even :: "rat \<Rightarrow> int" where
  "round_half_even y =
     (let f = \<lfloor>y\<rfloor>;
          d = y - of_int f
      in if d < 1 / 2 then f else if 1 / 2 < d then f + 1
         else if even f then f else f + 1)"

definition pow2 :: "int \<Rightarrow> rat" where
  "pow2 e = (if 0 \<le> e then 2 ^ nat e else 1 / 2 ^ nat (- e))"

text \<open>The exponent \<open>e\<close> of a non-zero \<open>x\<close>: \<open>2 ^ e \<le> \<bar>x\<bar> < 2 ^ (e + 1)\<close>.\<close>

definition float_exponent :: "rat \<Rightarrow> int" where
  "float_exponent x =
     (if 1 \<le> \<bar>x\<bar> then bitlen \<lfloor>\<bar>x\<bar>\<rfloor> - 1 else - bitlen (\<lceil>1 / \<bar>x\<bar>\<rceil> - 1))"

text \<open>
  The nearest double: a significand of 53 bits, so the doubles near \<open>x\<close> are the multiples
  of \<open>2 ^ (e - 52)\<close>; below the smallest normal exponent -1022 the spacing stays that of
  the subnormal numbers.
\<close>

definition to_double :: "rat \<Rightarrow> rat" where
  "to_double x =
     (if x = 0 then 0
      else let q = pow2 (max (float_exponent x) (- 1022) - 52)
           in of_int (round_half_even (x / q)) * q)"

text \<open>A float literal of the program text, such as \<open>0.8\<close>, is the double nearest to it.\<close>

definition py_float :: "rat \<Rightarrow> rat" where
  "py_float x = to_double x"

text \<open>The subtraction \<open>a - b\<close> of two floats.\<close>

definition float_sub :: "rat \<Rightarrow> rat \<Rightarrow> rat" where
  "float_sub a b = to_double (a - b)"

text \<open>
  Python's \<open>round(x, ndigits)\<close> on a float: the exact value of \<open>x\<close> is rounded to the
  nearest multiple of \<open>10 ^ -ndigits\<close>, a tie going to the even neighbour, and the result
  is the double nearest to that decimal number.
\<close>

definition py_round :: "rat \<Rightarrow> nat \<Rightarrow> rat" where
  "py_round x ndigits = to_double (of_int (round_half_even (x * 10 ^ ndigits)) / 10 ^ ndigits)"

section \<open>The shading classifier (blenderbim/tool/style.py)\<close>

subsection \<open>The shader node graph\<close>

text \<open>
  A socket's \<open>default_value\<close> is a float or an array of floats. A node has a type, the
  \<open>is_active_output\<close> flag, and its input and output sockets; an input socket's links
  lead to the nodes they come from (\<open>l.from_node\<close>).
\<close>

datatype sockval = VFloat rat | VColor "rat list"

datatype node = Node (ntype: string) (is_active_output: bool)
                     (inputs: "socket list") (outputs: "socket list")
  and socket = Socket (sname: string) (default_value: sockval) (is_linked: bool)
                      (links: "link list")
  and link = Link (from_node: node)

text \<open>
  The material: \<open>obj.diffuse_color\<close> (the viewport colour), \<open>obj.node_tree.nodes\<close> and
  \<open>obj.BIMStyleProperties.diffuse_color\<close> (the colour of the panel).
\<close>

record material =
  diffuse_color :: "rat list"
  nodes :: "node list"
  props_diffuse_color :: "rat list"

record colour =
  Name :: "string option"
  Red :: rat
  Green :: rat
  Blue :: rat

text \<open>The values stored in the returned dictionary of attributes.\<close>

datatype attr_val =
    ANone
  | AFloat rat
  | AStr string
  | AColour colour
  | ASpecularRoughness rat

type_synonym attributes = "string \<rightharpoonup> attr_val"

subsection \<open>Helpers\<close>

definition color_to_ifc_format :: "sockval \<Rightarrow> error + colour" where
  "color_to_ifc_format color =
     (case color of
        VFloat x \<Rightarrow> Inl TypeError
      | VColor xs \<Rightarrow>
          if length xs < 3 then Inl IndexError
          else Inr \<lparr>Name = None, Red = xs ! 0, Green = xs ! 1, Blue = xs ! 2\<rparr>)"

text \<open>\<open>node.inputs[name]\<close> and \<open>node.inputs[index]\<close>.\<close>

definition input_by_name :: "node \<Rightarrow> string \<Rightarrow> error + socket" where
  "input_by_name n name =
     (case find (\<lambda>s. sname s = name) (inputs n) of
        None \<Rightarrow> Inl KeyError
      | Some s \<Rightarrow> Inr s)"

definition input_by_index :: "node \<Rightarrow> nat \<Rightarrow> error + socket" where
  "input_by_index n i = (if i < length (inputs n) then Inr (inputs n ! i) else Inl IndexError)"

definition get_input_node ::
  "node option \<Rightarrow> string option \<Rightarrow> string option \<Rightarrow> nat option \<Rightarrow> error + node option" where
  "get_input_node node input_name of_type input_index =
     (case node of
        None \<Rightarrow> Inl AttributeError
      | Some n \<Rightarrow>
          ebind (case input_index of
                   None \<Rightarrow> (case input_name of
                               None \<Rightarrow> Inl TypeError
                             | Some name \<Rightarrow> input_by_name n name)
                 | Some i \<Rightarrow> input_by_index n i)
            (\<lambda>input_pin.
               if of_type \<noteq> None \<and> of_type \<noteq> Some []
               then Inr (find (\<lambda>m. Some (ntype m) = of_type) (map from_node (links input_pin)))
               else Inr (case links input_pin of [] \<Rightarrow> None | l # _ \<Rightarrow> Some (from_node l))))"

text \<open>
  Modelled from the spec: \<open>tool.Blender.get_material_node\<close> is not part of the sources at
  hand. It locates the active material-output node: the first node of the tree with the
  given type and the given \<open>is_active_output\<close> flag, \<open>None\<close> when there is none.
\<close>

definition get_material_node :: "material \<Rightarrow> string \<Rightarrow> bool \<Rightarrow> node option" where
  "get_material_node obj node_type active =
     find (\<lambda>n. ntype n = node_type \<and> is_active_output n = active) (nodes obj)"

text \<open>
  \<open>bsdfs = {n.type: n for n in nodes if n.outputs and n.outputs[0].is_linked}\<close>: a later
  node replaces an earlier one of the same type.
\<close>

definition bsdfs_of :: "material \<Rightarrow> string \<rightharpoonup> node" where
  "bsdfs_of obj =
     map_of (rev (map (\<lambda>n. (ntype n, n))
       (filter (\<lambda>n. outputs n \<noteq> [] \<and> is_linked (hd (outputs n))) (nodes obj))))"

text \<open>
  \<open>round(v, 3)\<close> and \<open>1 - v\<close> on the value of a socket: both are float operations, and
  both raise on a colour.
\<close>

definition round_value :: "sockval \<Rightarrow> error + rat" where
  "round_value v = (case v of VFloat x \<Rightarrow> Inr (py_round x 3) | VColor xs \<Rightarrow> Inl TypeError)"

definition one_minus :: "sockval \<Rightarrow> error + rat" where
  "one_minus v = (case v of VFloat x \<Rightarrow> Inr (float_sub 1 x) | VColor xs \<Rightarrow> Inl TypeError)"

definition input_value :: "node \<Rightarrow> string \<Rightarrow> error + sockval" where
  "input_value n name = ebind (input_by_name n name) (\<lambda>s. Inr (default_value s))"

subsection \<open>The branches of the classifier\<close>

text \<open>
  The condition of the mix-shader branch: each conjunct is evaluated only when the ones
  before it hold; the result is \<open>second_input_node\<close> when all four hold.
\<close>

definition flat_mix_pattern :: "node \<Rightarrow> error + node option" where
  "flat_mix_pattern mix_shader =
     ebind (get_input_node (Some mix_shader) (Some ''Fac'') (Some ''LIGHT_PATH'') None)
       (\<lambda>light_path. case light_path of
          None \<Rightarrow> Inr None
        | Some _ \<Rightarrow>
            ebind (get_input_node (Some mix_shader) None (Some ''BSDF_TRANSPARENT'') (Some 1))
              (\<lambda>transparent. case transparent of
                 None \<Rightarrow> Inr None
               | Some _ \<Rightarrow>
                   ebind (get_input_node (Some mix_shader) None None (Some 2))
                     (\<lambda>second. case second of
                        None \<Rightarrow> Inr None
                      | Some second_input_node \<Rightarrow>
                          if ntype second_input_node = ''RGB''
                             \<or> ntype second_input_node = ''TEX_IMAGE''
                          then Inr (Some second_input_node) else Inr None)))"

text \<open>
  The condition of the principled branch, which binds \<open>bsdf\<close>: the surface output itself,
  or the principled node linked to input 1 of an add shader.
\<close>

definition principled_of :: "node option \<Rightarrow> error + node option" where
  "principled_of surface_output =
     (case surface_output of
        None \<Rightarrow> Inr None
      | Some so \<Rightarrow>
          if ntype so = ''BSDF_PRINCIPLED'' then Inr (Some so)
          else if ntype so = ''ADD_SHADER''
          then get_input_node (Some so) None (Some ''BSDF_PRINCIPLED'') (Some 1)
          else Inr None)"

text \<open>
  Each branch returns the dictionary and the value of the variable \<open>diffuse_color\<close>.
  The body of the two principled branches (lines 306-319 and 367-381):
\<close>

definition principled_branch ::
  "string \<Rightarrow> attributes \<Rightarrow> node \<Rightarrow> error + (attributes \<times> sockval)" where
  "principled_branch schema attributes bsdf =
     (let a1 = attributes(''ReflectanceMethod'' \<mapsto>
                 AStr (if schema \<noteq> ''IFC4X3'' then ''NOTDEFINED'' else ''PHYSICAL''))
      in ebind (input_value bsdf ''Base Color'') (\<lambda>diffuse.
         ebind (input_value bsdf ''Metallic'') (\<lambda>metallic.
         ebind (round_value metallic) (\<lambda>m.
         ebind (input_value bsdf ''Roughness'') (\<lambda>roughness.
         ebind (round_value roughness) (\<lambda>r.
         ebind (input_value bsdf ''Alpha'') (\<lambda>alpha.
         ebind (one_minus alpha) (\<lambda>t.
           Inr (a1(''SpecularColour'' \<mapsto> AFloat m,
                   ''SpecularHighlight'' \<mapsto> ASpecularRoughness r,
                   ''Transparency'' \<mapsto> AFloat t), diffuse)))))))))"

text \<open>The body of the glossy, diffuse and glass branches, which differ in the method only.\<close>

definition rough_branch ::
  "string \<Rightarrow> attributes \<Rightarrow> node \<Rightarrow> error + (attributes \<times> sockval)" where
  "rough_branch method attributes bsdf =
     ebind (input_value bsdf ''Roughness'') (\<lambda>roughness.
     ebind (round_value roughness) (\<lambda>r.
     ebind (input_value bsdf ''Color'') (\<lambda>diffuse.
       Inr (attributes(''ReflectanceMethod'' \<mapsto> AStr method,
                       ''SpecularHighlight'' \<mapsto> ASpecularRoughness r), diffuse))))"

definition emission_branch :: "attributes \<Rightarrow> node \<Rightarrow> error + (attributes \<times> sockval)" where
  "emission_branch attributes bsdf =
     ebind (input_value bsdf ''Color'') (\<lambda>diffuse.
       Inr (attributes(''ReflectanceMethod'' \<mapsto> AStr ''FLAT'',
                       ''SpecularHighlight'' \<mapsto> ANone), diffuse))"

text \<open>
  The mix-shader branch (lines 278-297). When the pattern does not hold, the dictionary
  and \<open>diffuse_color\<close> are left as they are and no other branch is tried.
\<close>

definition mix_shader_branch ::
  "material \<Rightarrow> attributes \<Rightarrow> sockval \<Rightarrow> node \<Rightarrow> error + (attributes \<times> sockval)" where
  "mix_shader_branch obj attributes diffuse mix_shader =
     ebind (flat_mix_pattern mix_shader) (\<lambda>p. case p of
        None \<Rightarrow> Inr (attributes, diffuse)
      | Some second_input_node \<Rightarrow>
          (let a1 = attributes(''ReflectanceMethod'' \<mapsto> AStr ''FLAT'',
                               ''SpecularHighlight'' \<mapsto> ANone)
           in if ntype second_input_node = ''RGB''
              then (case outputs second_input_node of
                      [] \<Rightarrow> Inl IndexError
                    | out # _ \<Rightarrow> Inr (a1, default_value out))
              else Inr (a1, VColor (props_diffuse_color obj))))"

text \<open>Lines 392-393: the selected colour becomes \<open>DiffuseColour\<close>.\<close>

definition finish :: "attributes \<times> sockval \<Rightarrow> error + attributes" where
  "finish r = ebind (color_to_ifc_format (snd r))
                (\<lambda>c. Inr ((fst r)(''DiffuseColour'' \<mapsto> AColour c)))"

subsection \<open>The classifier\<close>

text \<open>
  \<open>get_surface_rendering_attributes\<close>; \<open>schema\<close> is the value of
  \<open>tool.Ifc.get_schema()\<close>. The trace lines of the verbose mode are not part of the
  returned value and are left out.
\<close>

definition classify ::
  "string \<Rightarrow> material \<Rightarrow> attributes \<Rightarrow> colour \<Rightarrow> node option \<Rightarrow> error + attributes" where
  "classify schema obj attributes viewport_color surface_output =
     (let bsdfs = bsdfs_of obj; diffuse = VColor (diffuse_color obj) in
      if surface_output \<noteq> None \<and> ntype (the surface_output) = ''MIX_SHADER''
      then ebind (mix_shader_branch obj attributes diffuse (the surface_output)) finish
      else ebind (principled_of surface_output) (\<lambda>b. case b of
          Some bsdf \<Rightarrow> ebind (principled_branch schema attributes bsdf) finish
        | None \<Rightarrow>
            if ''BSDF_GLOSSY'' \<in> dom bsdfs
            then ebind (rough_branch ''METAL'' attributes (the (bsdfs ''BSDF_GLOSSY''))) finish
            else if ''BSDF_DIFFUSE'' \<in> dom bsdfs
            then ebind (rough_branch ''MATT'' attributes (the (bsdfs ''BSDF_DIFFUSE''))) finish
            else if ''BSDF_GLASS'' \<in> dom bsdfs
            then ebind (rough_branch ''GLASS'' attributes (the (bsdfs ''BSDF_GLASS''))) finish
            else if ''EMISSION'' \<in> dom bsdfs
            then ebind (emission_branch attributes (the (bsdfs ''EMISSION''))) finish
            else if ''BSDF_PRINCIPLED'' \<in> dom bsdfs
            then ebind (principled_branch schema attributes (the (bsdfs ''BSDF_PRINCIPLED'')))
                   finish
            else Inr (attributes(''ReflectanceMethod'' \<mapsto> AStr ''NOTDEFINED'',
                                 ''SpecularHighlight'' \<mapsto> ANone,
                                 ''DiffuseColour'' \<mapsto> AColour viewport_color))))"

definition get_surface_rendering_attributes :: "string \<Rightarrow> material \<Rightarrow> error + attributes" where
  "get_surface_rendering_attributes schema obj =
     (if length (diffuse_color obj) < 4 then Inl IndexError
      else
        let transparency = float_sub 1 (diffuse_color obj ! 3) in
        ebind (color_to_ifc_format (VColor (diffuse_color obj))) (\<lambda>viewport_color.
          let attributes = [''SurfaceColour'' \<mapsto> AColour viewport_color,
                            ''Transparency'' \<mapsto> AFloat transparency];
              material_output = get_material_node obj ''OUTPUT_MATERIAL'' True
          in ebind (get_input_node material_output (Some ''Surface'') None None)
               (classify schema obj attributes viewport_color)))"


subsection \<open>Materials the classifier accepts\<close>

text \<open>
  The sockets that the host editor gives to the node types the classifier reads: the
  classifier looks them up by name or position and reads their values, and a node
  without them makes the lookup raise.
\<close>

definition has_float_input :: "node \<Rightarrow> string \<Rightarrow> bool" where
  "has_float_input n name =
     (case input_value n name of Inr (VFloat x) \<Rightarrow> True | _ \<Rightarrow> False)"

definition is_colour :: "sockval \<Rightarrow> bool" where
  "is_colour v = (case v of VColor xs \<Rightarrow> 3 \<le> length xs | VFloat x \<Rightarrow> False)"

definition has_colour_input :: "node \<Rightarrow> string \<Rightarrow> bool" where
  "has_colour_input n name =
     (case input_value n name of Inr v \<Rightarrow> is_colour v | Inl e \<Rightarrow> False)"

definition sockets_ok :: "node \<Rightarrow> bool" where
  "sockets_ok n =
     (if ntype n = ''OUTPUT_MATERIAL'' then find (\<lambda>s. sname s = ''Surface'') (inputs n) \<noteq> None
      else if ntype n = ''MIX_SHADER''
      then find (\<lambda>s. sname s = ''Fac'') (inputs n) \<noteq> None \<and> 3 \<le> length (inputs n)
      else if ntype n = ''ADD_SHADER'' then 2 \<le> length (inputs n)
      else if ntype n = ''RGB''
      then outputs n \<noteq> [] \<and> is_colour (default_value (hd (outputs n)))
      else if ntype n = ''BSDF_PRINCIPLED''
      then has_colour_input n ''Base Color'' \<and> has_float_input n ''Metallic''
           \<and> has_float_input n ''Roughness'' \<and> has_float_input n ''Alpha''
      else if ntype n = ''BSDF_GLOSSY'' \<or> ntype n = ''BSDF_DIFFUSE'' \<or> ntype n = ''BSDF_GLASS''
      then has_float_input n ''Roughness'' \<and> has_colour_input n ''Color''
      else if ntype n = ''EMISSION'' then has_colour_input n ''Color''
      else True)"

text \<open>A node is well formed when it and every node upstream of it has its sockets.\<close>

fun wf_node :: "node \<Rightarrow> bool"
  and wf_socket :: "socket \<Rightarrow> bool"
  and wf_link :: "link \<Rightarrow> bool" where
  "wf_node (Node t a ins outs) =
     (sockets_ok (Node t a ins outs) \<and> (\<forall>s \<in> set ins. wf_socket s))"
| "wf_socket (Socket n v l ls) = (\<forall>l \<in> set ls. wf_link l)"
| "wf_link (Link n) = wf_node n"

definition wf_material :: "material \<Rightarrow> bool" where
  "wf_material obj =
     (length (diffuse_color obj) = 4 \<and> 3 \<le> length (props_diffuse_color obj)
      \<and> (\<forall>n \<in> set (nodes obj). wf_node n)
      \<and> get_material_node obj ''OUTPUT_MATERIAL'' True \<noteq> None)"

section \<open>The IFC document\<close>

text \<open>
  Modelled from the spec: the document object model of the IFC toolkit (entity lookup
  by id and by type, inverse references, attribute get and set, entity creation, the
  schema identifier) is not part of the sources at hand. A document is its schema
  identifier and its entities; the id of an entity is its position, entities are only
  ever added at the end, and an attribute holds nothing, a number, a string, a list of
  numbers, a reference to an entity or a list of references. An entity carries the
  attributes its type declares, each with its value.
\<close>

datatype ifc_value =
    Null
  | Num rat
  | Str string
  | Nums "rat list"
  | Ref nat
  | Refs "nat list"

record entity =
  etype :: string
  attrs :: "(string \<times> ifc_value) list"

record ifc_file =
  schema :: string
  entities :: "entity list"

text \<open>
  Modelled from the spec: the part of the entity hierarchy of the IFC schemas that the
  queries of this code can see, as the proper subtypes of the queried types.
\<close>

definition ifc_subtypes :: "string \<Rightarrow> string list" where
  "ifc_subtypes t =
     (if t = ''IfcCoordinateOperation''
      then [''IfcMapConversion'', ''IfcMapConversionScaled'', ''IfcRigidOperation'']
      else if t = ''IfcMapConversion'' then [''IfcMapConversionScaled'']
      else if t = ''IfcGeometricRepresentationContext''
      then [''IfcGeometricRepresentationSubContext'']
      else [])"

definition is_a :: "entity \<Rightarrow> string \<Rightarrow> bool" where
  "is_a e t = (etype e = t \<or> etype e \<in> set (ifc_subtypes t))"

definition by_type :: "ifc_file \<Rightarrow> string \<Rightarrow> bool \<Rightarrow> nat list" where
  "by_type f t include_subtypes =
     filter (\<lambda>i. if include_subtypes then is_a (entities f ! i) t
                 else etype (entities f ! i) = t)
       [0..<length (entities f)]"

definition refs_of :: "ifc_value \<Rightarrow> nat list" where
  "refs_of v = (case v of Ref i \<Rightarrow> [i] | Refs js \<Rightarrow> js | _ \<Rightarrow> [])"

definition refers :: "entity \<Rightarrow> nat \<Rightarrow> bool" where
  "refers e i = (\<exists>kv \<in> set (attrs e). i \<in> set (refs_of (snd kv)))"

definition get_inverse :: "ifc_file \<Rightarrow> nat \<Rightarrow> nat list" where
  "get_inverse f i = filter (\<lambda>j. refers (entities f ! j) i) [0..<length (entities f)]"

definition getattr :: "ifc_file \<Rightarrow> nat \<Rightarrow> string \<Rightarrow> error + ifc_value" where
  "getattr f i name =
     (if i < length (entities f)
      then (case map_of (attrs (entities f ! i)) name of
              None \<Rightarrow> Inl AttributeError
            | Some v \<Rightarrow> Inr v)
      else Inl RuntimeError)"

definition setattr :: "ifc_file \<Rightarrow> nat \<Rightarrow> string \<Rightarrow> ifc_value \<Rightarrow> error + ifc_file" where
  "setattr f i name v =
     (if i < length (entities f)
      then (if name \<in> set (map fst (attrs (entities f ! i)))
            then Inr (f\<lparr>entities := (entities f)
                     [i := (entities f ! i)\<lparr>attrs := AList.update name v
                                                     (attrs (entities f ! i))\<rparr>]\<rparr>)
            else Inl AttributeError)
      else Inl RuntimeError)"

text \<open>\<open>file.create_entity("IfcDirection")\<close>: the new entity and its id.\<close>

definition create_IfcDirection :: "ifc_file \<Rightarrow> ifc_file \<times> nat" where
  "create_IfcDirection f =
     (f\<lparr>entities := entities f @ [\<lparr>etype = ''IfcDirection'',
                                     attrs = [(''DirectionRatios'', Null)]\<rparr>]\<rparr>,
      length (entities f))"

text \<open>The truth value Python gives to an attribute value.\<close>

definition truthy :: "ifc_value \<Rightarrow> bool" where
  "truthy v =
     (case v of Null \<Rightarrow> False | Num x \<Rightarrow> x \<noteq> 0 | Str s \<Rightarrow> s \<noteq> [] | Nums xs \<Rightarrow> xs \<noteq> []
      | Ref i \<Rightarrow> True | Refs js \<Rightarrow> js \<noteq> [])"

section \<open>The georeferencing editor (api/georeference/edit\_georeferencing.py)\<close>

text \<open>
  The \<open>true_north\<close> argument is a Python sequence, a tuple by its annotation and a list
  in the default that replaces an absent one; the two differ under \<open>+\<close>.
\<close>

datatype pyseq = PyList "rat list" | PyTuple "rat list"

definition seq_items :: "pyseq \<Rightarrow> rat list" where
  "seq_items s = (case s of PyList xs \<Rightarrow> xs | PyTuple xs \<Rightarrow> xs)"

definition seq_slice2 :: "pyseq \<Rightarrow> pyseq" where
  "seq_slice2 s = (case s of PyList xs \<Rightarrow> PyList (take 2 xs) | PyTuple xs \<Rightarrow> PyTuple (take 2 xs))"

text \<open>\<open>s + [0.0]\<close>: a tuple and a list cannot be concatenated.\<close>

definition seq_add_list :: "pyseq \<Rightarrow> rat list \<Rightarrow> error + pyseq" where
  "seq_add_list s ys = (case s of PyList xs \<Rightarrow> Inr (PyList (xs @ ys)) | PyTuple xs \<Rightarrow> Inl TypeError)"

text \<open>
  The property-set helpers and the value constructors of the legacy path are outside the
  sources at hand and are parameters: \<open>get_pset\<close> gives the id of the named property set
  of an element when there is one, \<open>edit_pset\<close> edits the properties of a property set,
  \<open>create_value\<close> stands for \<open>file.createIfcText\<close> and its kin.
\<close>

record toolkit =
  get_pset :: "ifc_file \<Rightarrow> nat \<Rightarrow> string \<Rightarrow> error + nat option"
  edit_pset :: "ifc_file \<Rightarrow> nat \<Rightarrow> (string \<times> ifc_value) list \<Rightarrow> error + ifc_file"
  create_value :: "ifc_file \<Rightarrow> string \<Rightarrow> ifc_value \<Rightarrow> error + ifc_file"

record settings =
  coordinate_operation :: "(string \<times> ifc_value) list"
  projected_crs :: "(string \<times> ifc_value) list"
  true_north :: pyseq

text \<open>A \<open>for\<close> loop over a list whose body updates the document and may raise.\<close>

fun for_each :: "('a \<Rightarrow> ifc_file \<Rightarrow> error + ifc_file) \<Rightarrow> 'a list \<Rightarrow> ifc_file \<Rightarrow> error + ifc_file"
  where
  "for_each body [] f = Inr f"
| "for_each body (x # xs) f = ebind (body x f) (for_each body xs)"

text \<open>\<open>context.TrueNorth = self.file.create_entity("IfcDirection")\<close>\<close>

definition new_true_north :: "nat \<Rightarrow> ifc_file \<Rightarrow> error + ifc_file" where
  "new_true_north c f =
     (let (f', d) = create_IfcDirection f in setattr f' c ''TrueNorth'' (Ref d))"

text \<open>\<open>direction.DirectionRatios = value\<close>, where \<open>direction\<close> is the value of an attribute.\<close>

definition set_direction_ratios :: "ifc_value \<Rightarrow> pyseq \<Rightarrow> ifc_file \<Rightarrow> error + ifc_file" where
  "set_direction_ratios direction value f =
     (case direction of
        Ref d \<Rightarrow> setattr f d ''DirectionRatios'' (Nums (seq_items value))
      | _ \<Rightarrow> Inl AttributeError)"

text \<open>
  Lines 138-142 of the loop of \<open>set_true_north\<close>, for the value \<open>t\<close> of
  \<open>context.TrueNorth\<close>: the context gets a new direction when it has none or when its
  direction does not have exactly one referrer.
\<close>

definition ensure_true_north :: "ifc_value \<Rightarrow> nat \<Rightarrow> ifc_file \<Rightarrow> error + ifc_file" where
  "ensure_true_north t c f =
     (if truthy t
      then (case t of
              Ref d \<Rightarrow> if length (get_inverse f d) \<noteq> 1 then new_true_north c f else Inr f
            | _ \<Rightarrow> Inl TypeError)
      else new_true_north c f)"

text \<open>
  Lines 143-151. The branch for a \<open>true_north\<close> that is \<open>None\<close> cannot be taken: the
  setting is a sequence.
\<close>

definition assign_direction_ratios :: "pyseq \<Rightarrow> nat \<Rightarrow> ifc_file \<Rightarrow> error + ifc_file" where
  "assign_direction_ratios tn c f =
     ebind (getattr f c ''TrueNorth'') (\<lambda>direction.
     ebind (getattr f c ''CoordinateSpaceDimension'') (\<lambda>space_dimension.
       if space_dimension = Num 2 then set_direction_ratios direction (seq_slice2 tn) f
       else ebind (seq_add_list (seq_slice2 tn) [0])
              (\<lambda>v. set_direction_ratios direction v f)))"

text \<open>The body of the loop of \<open>set_true_north\<close> (lines 138-151).\<close>

definition set_context_true_north :: "pyseq \<Rightarrow> nat \<Rightarrow> ifc_file \<Rightarrow> error + ifc_file" where
  "set_context_true_north tn c f =
     ebind (getattr f c ''TrueNorth'') (\<lambda>t.
     ebind (ensure_true_north t c f) (assign_direction_ratios tn c))"

definition set_true_north :: "pyseq \<Rightarrow> ifc_file \<Rightarrow> error + ifc_file" where
  "set_true_north tn f =
     (if seq_items tn = [] then Inr f
      else for_each (set_context_true_north tn)
             (by_type f ''IfcGeometricRepresentationContext'' False) f)"

text \<open>\<open>for name, value in mapping.items(): setattr(entity, name, value)\<close>\<close>

definition setattrs :: "nat \<Rightarrow> (string \<times> ifc_value) list \<Rightarrow> ifc_file \<Rightarrow> error + ifc_file" where
  "setattrs i mapping f = for_each (\<lambda>kv g. setattr g i (fst kv) (snd kv)) mapping f"

text \<open>
  The two iterations of the legacy path (lines 110-116 and 120-124) build a typed value for each
  item and drop it.
\<close>

definition crs_value_type :: "string \<Rightarrow> string" where
  "crs_value_type k =
     (if k = ''Description'' then ''IfcText''
      else if k = ''Name'' then ''IfcLabel'' else ''IfcIdentifier'')"

definition conversion_value_type :: "string \<Rightarrow> string" where
  "conversion_value_type k =
     (if k = ''XAxisAbscissa'' \<or> k = ''XAxisOrdinate'' \<or> k = ''Scale'' then ''IfcReal''
      else ''IfcLengthMeasure'')"

definition edit_legacy_pset ::
  "toolkit \<Rightarrow> nat \<Rightarrow> string \<Rightarrow> (string \<Rightarrow> string) \<Rightarrow> (string \<times> ifc_value) list
     \<Rightarrow> ifc_file \<Rightarrow> error + ifc_file" where
  "edit_legacy_pset tk project pset_name value_type mapping f =
     ebind (get_pset tk f project pset_name) (\<lambda>found. case found of
        None \<Rightarrow> Inr f
      | Some pset \<Rightarrow>
          if pset < length (entities f)
          then ebind (for_each (\<lambda>kv g. create_value tk g (value_type (fst kv)) (snd kv))
                        mapping f)
                 (\<lambda>g. edit_pset tk g pset mapping)
          else Inl RuntimeError)"

definition execute :: "toolkit \<Rightarrow> settings \<Rightarrow> ifc_file \<Rightarrow> error + ifc_file" where
  "execute tk s f =
     ebind (set_true_north (true_north s) f) (\<lambda>f1.
       if schema f1 = ''IFC2X3''
       then (case by_type f1 ''IfcProject'' True of
               [] \<Rightarrow> Inr f1
             | project # _ \<Rightarrow>
                 ebind (edit_legacy_pset tk project ''ePSet_ProjectedCRS'' crs_value_type
                          (projected_crs s) f1)
                   (edit_legacy_pset tk project ''ePSet_MapConversion'' conversion_value_type
                      (coordinate_operation s)))
       else (case by_type f1 ''IfcCoordinateOperation'' True of
               [] \<Rightarrow> Inl IndexError
             | co # _ \<Rightarrow>
                 (case by_type f1 ''IfcProjectedCRS'' True of
                    [] \<Rightarrow> Inl IndexError
                  | crs # _ \<Rightarrow>
                      ebind (setattrs co (coordinate_operation s) f1)
                        (setattrs crs (projected_crs s)))))"

text \<open>
  \<open>edit_georeferencing\<close>: an absent or empty argument is replaced by an empty mapping
  or an empty list.
\<close>

definition seq_or_empty :: "pyseq option \<Rightarrow> pyseq" where
  "seq_or_empty tn =
     (case tn of None \<Rightarrow> PyList [] | Some s \<Rightarrow> if seq_items s = [] then PyList [] else s)"

definition dict_or_empty :: "(string \<times> ifc_value) list option \<Rightarrow> (string \<times> ifc_value) list"
  where
  "dict_or_empty m = (case m of None \<Rightarrow> [] | Some kvs \<Rightarrow> kvs)"

definition edit_georeferencing ::
  "toolkit \<Rightarrow> ifc_file \<Rightarrow> (string \<times> ifc_value) list option
     \<Rightarrow> (string \<times> ifc_value) list option \<Rightarrow> pyseq option \<Rightarrow> error + ifc_file" where
  "edit_georeferencing tk file co crs tn =
     execute tk \<lparr>coordinate_operation = dict_or_empty co,
                 projected_crs = dict_or_empty crs,
                 true_north = seq_or_empty tn\<rparr> file"

section \<open>The styled items of a style (blenderbim/tool/style.py)\<close>

text \<open>
  The loop of \<open>get_styled_items\<close> over the worklist \<open>inverses\<close>; \<open>pop\<close> takes the last
  element. The result is \<open>None\<close> when the loop does not end.
\<close>

partial_function (option) styled_items_loop ::
  "ifc_file \<Rightarrow> nat list \<Rightarrow> nat list \<Rightarrow> (error + nat list) option" where
  "styled_items_loop f inverses items =
     (if inverses = [] then Some (Inr items)
      else
        let inverse = last inverses; rest = butlast inverses in
        if is_a (entities f ! inverse) ''IfcPresentationStyleAssignment''
        then styled_items_loop f (rest @ get_inverse f inverse) items
        else (case getattr f inverse ''Item'' of
                Inl e \<Rightarrow> Some (Inl e)
              | Inr item \<Rightarrow>
                  if \<not> truthy item then styled_items_loop f rest items
                  else (case item of
                          Ref it \<Rightarrow>
                            if it < length (entities f)
                            then (if is_a (entities f ! it) ''IfcMappedItem''
                                  then (case ebind (getattr f it ''MappingSource'') (\<lambda>src.
                                               ebind (case src of
                                                        Ref m \<Rightarrow> getattr f m ''MappedRepresentation''
                                                      | _ \<Rightarrow> Inl AttributeError) (\<lambda>rep.
                                                 case rep of
                                                   Ref r \<Rightarrow> getattr f r ''Items''
                                                 | _ \<Rightarrow> Inl AttributeError)) of
                                          Inl e \<Rightarrow> Some (Inl e)
                                        | Inr (Refs mapped) \<Rightarrow>
                                            styled_items_loop f rest (items @ mapped)
                                        | Inr _ \<Rightarrow> Some (Inl TypeError))
                                  else styled_items_loop f rest (items @ [it]))
                            else Some (Inl RuntimeError)
                        | _ \<Rightarrow> Some (Inl AttributeError))))"

declare styled_items_loop.simps [code]

definition get_styled_items :: "ifc_file \<Rightarrow> nat \<Rightarrow> (error + nat list) option" where
  "get_styled_items f style = styled_items_loop f (get_inverse f style) []"


section \<open>Example materials\<close>

definition example_principled :: node where
  "example_principled = Node ''BSDF_PRINCIPLED'' False
     [Socket ''Base Color'' (VColor [1 / 8, 1 / 4, 3 / 8, 1]) False [],
      Socket ''Metallic'' (VFloat (py_float (5001 / 10000))) False [],
      Socket ''Roughness'' (VFloat (py_float (2004 / 10000))) False [],
      Socket ''Alpha'' (VFloat (py_float (8 / 10))) False []]
     [Socket ''BSDF'' (VFloat 0) True []]"

definition example_output :: "node \<Rightarrow> node" where
  "example_output n = Node ''OUTPUT_MATERIAL'' True
     [Socket ''Surface'' (VFloat 0) True [Link n]] []"

definition example_material :: "node list \<Rightarrow> material" where
  "example_material ns =
     \<lparr>diffuse_color = [1 / 2, 1 / 4, 1 / 8, 1], nodes = ns, props_diffuse_color = [0, 0, 0]\<rparr>"

definition example_diffuse :: "bool \<Rightarrow> node" where
  "example_diffuse linked = Node ''BSDF_DIFFUSE'' False
     [Socket ''Color'' (VColor [1, 0, 0, 1]) False [],
      Socket ''Roughness'' (VFloat (1 / 2)) False []]
     [Socket ''BSDF'' (VFloat 0) linked []]"

definition example_glossy :: node where
  "example_glossy = Node ''BSDF_GLOSSY'' False
     [Socket ''Color'' (VColor [1, 1, 1, 1]) False [],
      Socket ''Roughness'' (VFloat (1 / 4)) False []]
     [Socket ''BSDF'' (VFloat 0) True []]"

text \<open>A mix of a diffuse and a glossy shader with a constant factor.\<close>

definition example_mix :: node where
  "example_mix = Node ''MIX_SHADER'' False
     [Socket ''Fac'' (VFloat (1 / 2)) False [],
      Socket ''Shader'' (VFloat 0) True [Link (example_diffuse True)],
      Socket ''Shader'' (VFloat 0) True [Link example_glossy]]
     [Socket ''Shader'' (VFloat 0) True []]"

definition example_unlinked_output :: node where
  "example_unlinked_output = Node ''OUTPUT_MATERIAL'' True
     [Socket ''Surface'' (VFloat 0) False []] []"

section \<open>Auxiliary notions\<close>

text \<open>The entry of a returned record under a key; none when the classifier raised.\<close>

definition attribute_of :: "error + attributes \<Rightarrow> string \<Rightarrow> attr_val option" where
  "attribute_of r k = (case r of Inl e \<Rightarrow> None | Inr a \<Rightarrow> a k)"

text \<open>
  \<open>grows f f'\<close>: the document \<open>f'\<close> has the schema of \<open>f\<close> and its entities with their
  types, and beyond them only new directions.
\<close>

definition grows :: "ifc_file \<Rightarrow> ifc_file \<Rightarrow> bool" where
  "grows f f' =
     (schema f' = schema f \<and> length (entities f) \<le> length (entities f')
      \<and> (\<forall>i < length (entities f). etype (entities f' ! i) = etype (entities f ! i))
      \<and> (\<forall>i < length (entities f'). length (entities f) \<le> i
            \<longrightarrow> etype (entities f' ! i) = ''IfcDirection''))"

text \<open>The part of \<open>execute\<close> after the true-north step.\<close>

definition after_true_north ::
  "toolkit \<Rightarrow> (string \<times> ifc_value) list \<Rightarrow> (string \<times> ifc_value) list \<Rightarrow> ifc_file
    \<Rightarrow> error + ifc_file" where
  "after_true_north tk co crs f1 =
     (if schema f1 = ''IFC2X3''
       then (case by_type f1 ''IfcProject'' True of
               [] \<Rightarrow> Inr f1
             | project # _ \<Rightarrow>
                 ebind (edit_legacy_pset tk project ''ePSet_ProjectedCRS'' crs_value_type crs f1)
                   (edit_legacy_pset tk project ''ePSet_MapConversion'' conversion_value_type co))
       else (case by_type f1 ''IfcCoordinateOperation'' True of
               [] \<Rightarrow> Inl IndexError
             | c # _ \<Rightarrow>
                 (case by_type f1 ''IfcProjectedCRS'' True of
                    [] \<Rightarrow> Inl IndexError
                  | p # _ \<Rightarrow> ebind (setattrs c co f1) (setattrs p crs))))"

text \<open>
  \<open>same_but f f' i keys\<close>: \<open>f'\<close> is \<open>f\<close> but for the values of the attributes \<open>keys\<close> of
  the entity \<open>i\<close>.
\<close>

definition same_but :: "ifc_file \<Rightarrow> ifc_file \<Rightarrow> nat \<Rightarrow> string set \<Rightarrow> bool" where
  "same_but f f' i keys =
     (schema f' = schema f \<and> length (entities f') = length (entities f)
      \<and> (\<forall>j. etype (entities f' ! j) = etype (entities f ! j))
      \<and> (\<forall>j name. getattr f' j name \<noteq> getattr f j name \<longrightarrow> j = i \<and> name \<in> keys))"

text \<open>A direction of its own: a direction entity of the document with exactly one referrer.\<close>

definition own_direction :: "ifc_file \<Rightarrow> nat \<Rightarrow> bool" where
  "own_direction f d =
     (d < length (entities f) \<and> etype (entities f ! d) = ''IfcDirection''
      \<and> length (get_inverse f d) = 1)"

text \<open>
  The true north of the context \<open>c\<close> is a direction of its own, or is absent when
  \<open>allow_null\<close> holds.
\<close>

definition north_ok :: "bool \<Rightarrow> ifc_file \<Rightarrow> nat \<Rightarrow> bool" where
  "north_ok allow_null f c =
     (case getattr f c ''TrueNorth'' of
        Inr Null \<Rightarrow> allow_null
      | Inr (Ref d) \<Rightarrow> own_direction f d
      | _ \<Rightarrow> False)"

text \<open>Every context's existing true-north direction has exactly one referrer.\<close>

definition unshared_true_north :: "ifc_file \<Rightarrow> bool" where
  "unshared_true_north f =
     (\<forall>c \<in> set (by_type f ''IfcGeometricRepresentationContext'' False). north_ok True f c)"

text \<open>Every context has a true-north direction of its own.\<close>

definition settled_true_north :: "ifc_file \<Rightarrow> bool" where
  "settled_true_north f =
     (\<forall>c \<in> set (by_type f ''IfcGeometricRepresentationContext'' False). north_ok False f c)"

text \<open>Every reference of the document leads to one of its entities.\<close>

definition no_dangling :: "ifc_file \<Rightarrow> bool" where
  "no_dangling f =
     (\<forall>e \<in> set (entities f). \<forall>kv \<in> set (attrs e). \<forall>r \<in> set (refs_of (snd kv)).
        r < length (entities f))"

text \<open>
  The values of a mapping refer to entities of the document only, and to no direction.
\<close>

definition plain_values :: "ifc_file \<Rightarrow> (string \<times> ifc_value) list \<Rightarrow> bool" where
  "plain_values f m =
     (\<forall>kv \<in> set m. \<forall>r \<in> set (refs_of (snd kv)).
        r < length (entities f) \<and> etype (entities f ! r) \<noteq> ''IfcDirection'')"

section \<open>Example documents\<close>

definition example_toolkit :: toolkit where
  "example_toolkit = \<lparr>get_pset = (\<lambda>f p n. Inr None), edit_pset = (\<lambda>f p m. Inr f),
                       create_value = (\<lambda>f t v. Inr f)\<rparr>"

definition example_context :: "rat \<Rightarrow> ifc_value \<Rightarrow> entity" where
  "example_context d north =
     \<lparr>etype = ''IfcGeometricRepresentationContext'',
      attrs = [(''ContextIdentifier'', Null), (''ContextType'', Str ''Model''),
               (''CoordinateSpaceDimension'', Num d), (''Precision'', Null),
               (''WorldCoordinateSystem'', Null), (''TrueNorth'', north)]\<rparr>"

definition example_map_conversion :: entity where
  "example_map_conversion =
     \<lparr>etype = ''IfcMapConversion'',
      attrs = [(''SourceCRS'', Ref 0), (''TargetCRS'', Ref 2), (''Eastings'', Num 0),
               (''Northings'', Num 0), (''OrthogonalHeight'', Num 0),
               (''XAxisAbscissa'', Null), (''XAxisOrdinate'', Null), (''Scale'', Null)]\<rparr>"

definition example_projected_crs :: entity where
  "example_projected_crs =
     \<lparr>etype = ''IfcProjectedCRS'',
      attrs = [(''Name'', Str ''EPSG:7856''), (''Description'', Null),
               (''GeodeticDatum'', Null), (''VerticalDatum'', Null),
               (''MapProjection'', Null), (''MapZone'', Null), (''MapUnit'', Null)]\<rparr>"

definition example_direction :: "rat list \<Rightarrow> entity" where
  "example_direction ratios = \<lparr>etype = ''IfcDirection'', attrs = [(''DirectionRatios'', Nums ratios)]\<rparr>"

definition legacy_doc :: ifc_file where
  "legacy_doc = \<lparr>schema = ''IFC2X3'', entities = [example_context 3 Null]\<rparr>"

definition modern_doc :: ifc_file where
  "modern_doc = \<lparr>schema = ''IFC4'',
                  entities = [example_context 3 Null, example_map_conversion,
                              example_projected_crs]\<rparr>"

definition updated_doc :: ifc_file where
  "updated_doc = \<lparr>schema = ''IFC4'',
     entities = [example_context 3 Null,
                 example_map_conversion\<lparr>attrs := AList.update ''Eastings'' (Num 5)
                                                  (attrs example_map_conversion)\<rparr>,
                 example_projected_crs\<lparr>attrs := AList.update ''Name'' (Str ''EPSG:28356'')
                                                 (attrs example_projected_crs)\<rparr>]\<rparr>"

definition styled_doc :: ifc_file where
  "styled_doc = \<lparr>schema = ''IFC2X3'', entities =
     [\<lparr>etype = ''IfcSurfaceStyle'', attrs = [(''Name'', Str ''Concrete''), (''Side'', Str ''BOTH''),
                                            (''Styles'', Refs [])]\<rparr>,
      \<lparr>etype = ''IfcPresentationStyleAssignment'', attrs = [(''Styles'', Refs [0])]\<rparr>,
      \<lparr>etype = ''IfcStyledItem'', attrs = [(''Item'', Ref 3), (''Styles'', Refs [1]),
                                          (''Name'', Null)]\<rparr>,
      \<lparr>etype = ''IfcMappedItem'', attrs = [(''MappingSource'', Ref 4), (''MappingTarget'', Null)]\<rparr>,
      \<lparr>etype = ''IfcRepresentationMap'', attrs = [(''MappingOrigin'', Null),
                                                 (''MappedRepresentation'', Ref 5)]\<rparr>,
      \<lparr>etype = ''IfcShapeRepresentation'', attrs = [(''ContextOfItems'', Null),
           (''RepresentationIdentifier'', Str ''Body''), (''RepresentationType'', Str ''SweptSolid''),
           (''Items'', Refs [6, 7])]\<rparr>,
      \<lparr>etype = ''IfcExtrudedAreaSolid'', attrs = [(''Depth'', Num 3)]\<rparr>,
      \<lparr>etype = ''IfcFacetedBrep'', attrs = [(''Outer'', Null)]\<rparr>]\<rparr>"

definition north_doc :: ifc_file where
  "north_doc = \<lparr>schema = ''IFC4'',
     entities = [example_context 3 (Ref 3),
                 example_map_conversion\<lparr>attrs := AList.update ''Eastings'' (Num 5)
                                                  (attrs example_map_conversion)\<rparr>,
                 example_projected_crs, example_direction [0, 1, 0]]\<rparr>"

section \<open>Properties of the shading classifier\<close>

lemma ebind_Inr [simp]: "ebind (Inr x) k = k x"
  by (simp add: ebind_def)

lemma ebind_Inl [simp]: "ebind (Inl e) k = Inl e"
  by (simp add: ebind_def)

lemma ebind_eq_Inr: "ebind m k = Inr y \<longleftrightarrow> (\<exists>x. m = Inr x \<and> k x = Inr y)"
  by (cases m) simp_all

lemmas classifier_defs =
  get_surface_rendering_attributes_def classify_def get_material_node_def get_input_node_def
  input_by_name_def input_by_index_def input_value_def mix_shader_branch_def flat_mix_pattern_def
  principled_of_def principled_branch_def rough_branch_def emission_branch_def finish_def
  color_to_ifc_format_def round_value_def one_minus_def bsdfs_of_def ebind_def

lemmas example_defs =
  example_principled_def example_output_def example_material_def example_mix_def
  example_diffuse_def example_glossy_def example_unlinked_output_def

subsection \<open>Float arithmetic\<close>

lemma to_double_zero [simp]: "to_double 0 = 0"
  by (simp add: to_double_def)

lemma float_sub_self [simp]: "float_sub x x = 0"
  by (simp add: float_sub_def)

lemma round_half_even_below_half:
  assumes "of_int n \<le> y" "y < of_int n + 1 / 2"
  shows "round_half_even y = n"
proof -
  from assms have "\<lfloor>y\<rfloor> = n"
    by (intro floor_unique) simp_all
  with assms(2) show ?thesis
    by (simp add: round_half_even_def)
qed

text \<open>
  \<open>round(m, 3)\<close> is the double 0.5 for every float \<open>m\<close> within 0.0001 of 0.5001, and
  \<open>round(r, 3)\<close> is the double nearest to 0.2 for every float \<open>r\<close> within 0.0001 of 0.2004:
  neither is a tie, so the rounding mode plays no part.
\<close>

lemma round_metallic:
  assumes "\<bar>m - 5001 / 10000\<bar> < 1 / 10000"
  shows "py_round m 3 = 1 / 2"
proof -
  from assms have "m - 5001 / 10000 < 1 / 10000" "- (m - 5001 / 10000) < 1 / 10000"
    by (simp_all only: abs_less_iff)
  then have "of_int 500 \<le> m * 10 ^ 3" "m * 10 ^ 3 < of_int 500 + 1 / 2"
    by simp_all
  then have "round_half_even (m * 10 ^ 3) = 500"
    by (rule round_half_even_below_half)
  moreover have "to_double (of_int 500 / 10 ^ 3) = 1 / 2"
    by code_simp
  ultimately show ?thesis
    by (simp only: py_round_def)
qed

lemma round_roughness:
  assumes "\<bar>r - 2004 / 10000\<bar> < 1 / 10000"
  shows "py_round r 3 = py_float (1 / 5)"
proof -
  from assms have "r - 2004 / 10000 < 1 / 10000" "- (r - 2004 / 10000) < 1 / 10000"
    by (simp_all only: abs_less_iff)
  then have "of_int 200 \<le> r * 10 ^ 3" "r * 10 ^ 3 < of_int 200 + 1 / 2"
    by simp_all
  then have "round_half_even (r * 10 ^ 3) = 200"
    by (rule round_half_even_below_half)
  moreover have "to_double (of_int 200 / 10 ^ 3) = py_float (1 / 5)"
    by code_simp
  ultimately show ?thesis
    by (simp only: py_round_def)
qed

subsection \<open>The branches taken\<close>

text \<open>
  C2. The claim: whenever the classifier returns, the record has a \<open>ReflectanceMethod\<close>
  key, and \<open>SpecularHighlight\<close> is null when the method is FLAT. The mix-shader branch
  sets the method only when its pattern holds and tries no other branch: on a material
  whose surface output mixes a diffuse and a glossy shader by a constant factor, the
  classifier returns a record with neither key.
\<close>
theorem mix_shader_without_pattern_has_no_method:
  "get_surface_rendering_attributes ''IFC4''
     (example_material [example_diffuse True, example_glossy, example_mix,
                       example_output example_mix]) =
   Inr [''SurfaceColour'' \<mapsto> AColour \<lparr>Name = None, Red = 1 / 2, Green = 1 / 4, Blue = 1 / 8\<rparr>,
        ''Transparency'' \<mapsto> AFloat 0,
        ''DiffuseColour'' \<mapsto> AColour \<lparr>Name = None, Red = 1 / 2, Green = 1 / 4, Blue = 1 / 8\<rparr>]"
  by (simp add: classifier_defs example_defs)

text \<open>
  C3. The claim: when the node graph matches none of the recognised patterns, in
  particular when it is empty, the classifier returns the method \<open>NOTDEFINED\<close>, the
  viewport colour as \<open>DiffuseColour\<close> and a null \<open>SpecularHighlight\<close>. On the empty node
  graph there is no material-output node, and the lookup of its \<open>Surface\<close> input (line
  246, called from lines 275-276) reads \<open>inputs\<close> of \<open>None\<close>: the classifier raises and
  returns no record.
\<close>
theorem empty_graph_raises:
  "get_surface_rendering_attributes ''IFC4'' (example_material []) = Inl AttributeError"
  by (simp add: classifier_defs example_defs)

text \<open>
  C9. The claim: the classifier never fails, also on a graph with no material-output
  node. On a graph with a diffuse BSDF and no material-output node the classifier raises
  \<open>AttributeError\<close> and returns no record.
\<close>
theorem no_output_node_raises:
  "get_surface_rendering_attributes ''IFC4'' (example_material [example_diffuse False])
     = Inl AttributeError"
  by (simp add: classifier_defs example_defs)

text \<open>
  The same holds of every material with an RGBA viewport colour and no active
  material-output node, whatever its other nodes are.
\<close>
lemma missing_output_node_raises:
  assumes "4 \<le> length (diffuse_color obj)"
    and "get_material_node obj ''OUTPUT_MATERIAL'' True = None"
  shows "get_surface_rendering_attributes ifc_schema obj = Inl AttributeError"
  using assms
  by (simp add: get_surface_rendering_attributes_def get_input_node_def color_to_ifc_format_def
      Let_def)

text \<open>
  C4, counterexample. The claim: with metallic 0.5001, roughness 0.2004 and alpha 0.8 the
  classifier returns \<open>Transparency\<close> 1 - 0.8 = 0.2. The subtraction of line 319 is one of
  floats and is not rounded to decimals: on the principled material of the example, whose
  alpha is the float 0.8, \<open>Transparency\<close> is the float 0.19999999999999996, which is
  neither the float 0.2 nor the number 1/5.
\<close>
theorem principled_transparency_is_not_a_fifth:
  "attribute_of (get_surface_rendering_attributes ''IFC4''
       (example_material [example_principled, example_output example_principled]))
     ''Transparency'' = Some (AFloat (float_sub 1 (py_float (8 / 10))))
   \<and> float_sub 1 (py_float (8 / 10)) = 900719925474099 / 4503599627370496
   \<and> float_sub 1 (py_float (8 / 10)) \<noteq> py_float (1 / 5)
   \<and> float_sub 1 (py_float (8 / 10)) \<noteq> 1 / 5"
proof -
  have "attribute_of (get_surface_rendering_attributes ''IFC4''
       (example_material [example_principled, example_output example_principled]))
     ''Transparency'' = Some (AFloat (float_sub 1 (py_float (8 / 10))))"
    by (simp add: attribute_of_def classifier_defs example_defs)
  moreover have "float_sub 1 (py_float (8 / 10)) = 900719925474099 / 4503599627370496"
    by code_simp
  moreover have "float_sub 1 (py_float (8 / 10)) \<noteq> py_float (1 / 5)"
    by code_simp
  moreover have "float_sub 1 (py_float (8 / 10)) \<noteq> 1 / 5"
    by code_simp
  ultimately show ?thesis
    by (intro conjI)
qed

text \<open>
  C4, amended. When the surface output is a principled BSDF whose metallic input is
  within 0.0001 of 0.5001 and whose roughness input is within 0.0001 of 0.2004 (the
  floats 0.5001 and 0.2004, and the single-precision values a socket holds for them),
  the classifier returns \<open>SpecularColour\<close> 0.5 and the specular roughness 0.2, the
  floats that \<open>round(x, 3)\<close> gives; \<open>Transparency\<close> is the float difference 1 - alpha,
  not rounded to decimals (for the float 0.8 it is 0.19999999999999996, not 0.2); the
  method is \<open>PHYSICAL\<close> for the schema IFC4X3 and \<open>NOTDEFINED\<close> for any other; and
  \<open>DiffuseColour\<close> is the base colour of the BSDF.
\<close>
theorem principled_attributes:
  assumes rgba: "length (diffuse_color obj) = 4"
    and out: "get_material_node obj ''OUTPUT_MATERIAL'' True = Some material_output"
    and surf: "get_input_node (Some material_output) (Some ''Surface'') None None
                 = Inr (Some bsdf)"
    and ty: "ntype bsdf = ''BSDF_PRINCIPLED''"
    and base: "input_value bsdf ''Base Color'' = Inr (VColor base_color)"
              "3 \<le> length base_color"
    and met: "input_value bsdf ''Metallic'' = Inr (VFloat m)"
             "\<bar>m - 5001 / 10000\<bar> < 1 / 10000"
    and rough: "input_value bsdf ''Roughness'' = Inr (VFloat r)"
               "\<bar>r - 2004 / 10000\<bar> < 1 / 10000"
    and alpha: "input_value bsdf ''Alpha'' = Inr (VFloat al)"
  shows "\<exists>a. get_surface_rendering_attributes ifc_schema obj = Inr a
           \<and> a ''SpecularColour'' = Some (AFloat (1 / 2))
           \<and> a ''SpecularHighlight'' = Some (ASpecularRoughness (py_float (1 / 5)))
           \<and> a ''Transparency'' = Some (AFloat (float_sub 1 al))
           \<and> a ''ReflectanceMethod''
               = Some (AStr (if ifc_schema = ''IFC4X3'' then ''PHYSICAL'' else ''NOTDEFINED''))
           \<and> a ''DiffuseColour''
               = Some (AColour \<lparr>Name = None, Red = base_color ! 0, Green = base_color ! 1,
                                Blue = base_color ! 2\<rparr>)"
proof -
  have pr: "principled_of (Some bsdf) = Inr (Some bsdf)"
    by (simp add: principled_of_def ty)
  have nomix: "ntype bsdf \<noteq> ''MIX_SHADER''"
    by (simp add: ty)
  show ?thesis
    using rgba base(2)
    by (simp add: get_surface_rendering_attributes_def out surf classify_def pr nomix
        principled_branch_def base(1) met(1) rough(1) alpha round_value_def one_minus_def
        round_metallic [OF met(2)] round_roughness [OF rough(2)] finish_def
        color_to_ifc_format_def Let_def)
qed

theorem principled_attributes_witness:
  "\<exists>a. get_surface_rendering_attributes ''IFC4''
          (example_material [example_principled, example_output example_principled]) = Inr a
       \<and> a ''SpecularColour'' = Some (AFloat (1 / 2))
       \<and> a ''SpecularHighlight'' = Some (ASpecularRoughness (py_float (1 / 5)))
       \<and> a ''Transparency'' = Some (AFloat (900719925474099 / 4503599627370496))
       \<and> a ''ReflectanceMethod'' = Some (AStr ''NOTDEFINED'')
       \<and> a ''DiffuseColour''
           = Some (AColour \<lparr>Name = None, Red = 1 / 8, Green = 1 / 4, Blue = 3 / 8\<rparr>)"
proof -
  have m: "\<bar>py_float (5001 / 10000) - 5001 / 10000\<bar> < 1 / 10000"
    by code_simp
  have r: "\<bar>py_float (2004 / 10000) - 2004 / 10000\<bar> < 1 / 10000"
    by code_simp
  have t: "float_sub 1 (py_float (8 / 10)) = 900719925474099 / 4503599627370496"
    by code_simp
  have "\<exists>a. get_surface_rendering_attributes ''IFC4''
          (example_material [example_principled, example_output example_principled]) = Inr a
       \<and> a ''SpecularColour'' = Some (AFloat (1 / 2))
       \<and> a ''SpecularHighlight'' = Some (ASpecularRoughness (py_float (1 / 5)))
       \<and> a ''Transparency'' = Some (AFloat (float_sub 1 (py_float (8 / 10))))
       \<and> a ''ReflectanceMethod''
           = Some (AStr (if ''IFC4'' = ''IFC4X3'' then ''PHYSICAL'' else ''NOTDEFINED''))
       \<and> a ''DiffuseColour''
           = Some (AColour \<lparr>Name = None, Red = [1 / 8, 1 / 4, 3 / 8, 1] ! 0,
                Green = [1 / 8, 1 / 4, 3 / 8, 1] ! 1, Blue = [1 / 8, 1 / 4, 3 / 8, 1] ! 2\<rparr>)"
  proof (rule principled_attributes [where material_output = "example_output example_principled"
        and bsdf = example_principled, OF _ _ _ _ _ _ _ m _ r])
    show "length (diffuse_color (example_material [example_principled,
            example_output example_principled])) = 4"
      by (simp add: example_material_def)
    show "get_material_node (example_material [example_principled,
            example_output example_principled]) ''OUTPUT_MATERIAL'' True
          = Some (example_output example_principled)"
      by (simp add: example_defs get_material_node_def)
    show "get_input_node (Some (example_output example_principled)) (Some ''Surface'') None None
          = Inr (Some example_principled)"
      by (simp add: example_output_def get_input_node_def input_by_name_def)
    show "ntype example_principled = ''BSDF_PRINCIPLED''"
      by (simp add: example_principled_def)
    show "input_value example_principled ''Base Color'' = Inr (VColor [1 / 8, 1 / 4, 3 / 8, 1])"
      by (simp add: example_principled_def input_value_def input_by_name_def)
    show "3 \<le> length [1 / 8, 1 / 4, 3 / 8, 1 :: rat]"
      by simp
    show "input_value example_principled ''Metallic'' = Inr (VFloat (py_float (5001 / 10000)))"
      by (simp add: example_principled_def input_value_def input_by_name_def)
    show "input_value example_principled ''Roughness'' = Inr (VFloat (py_float (2004 / 10000)))"
      by (simp add: example_principled_def input_value_def input_by_name_def)
    show "input_value example_principled ''Alpha'' = Inr (VFloat (py_float (8 / 10)))"
      by (simp add: example_principled_def input_value_def input_by_name_def)
  qed
  then show ?thesis
    unfolding t by simp
qed

subsection \<open>The default record\<close>

text \<open>
  The final \<open>else\<close> of the chain (lines 383-390). For an RGBA viewport colour and a
  graph with an active material-output node whose \<open>Surface\<close> input can be read: when the
  node feeding it, if any, is not a mix shader and gives no principled BSDF, and no node
  with a linked first output is a glossy, diffuse, glass, emission or principled node,
  the classifier returns exactly the viewport colour as \<open>SurfaceColour\<close> and
  \<open>DiffuseColour\<close>, the transparency of the viewport colour, the method \<open>NOTDEFINED\<close> and
  a null \<open>SpecularHighlight\<close>. So a graph with an output node and nothing linked to it
  gets the default record, where a graph without an output node makes the classifier
  raise.
\<close>
lemma unrecognised_graph_defaults:
  assumes rgba: "length (diffuse_color obj) = 4"
    and out: "get_material_node obj ''OUTPUT_MATERIAL'' True = Some material_output"
    and surf: "get_input_node (Some material_output) (Some ''Surface'') None None
                 = Inr surface_output"
    and nomix: "map_option ntype surface_output \<noteq> Some ''MIX_SHADER''"
    and nopr: "principled_of surface_output = Inr None"
    and nobsdf: "\<forall>t \<in> {''BSDF_GLOSSY'', ''BSDF_DIFFUSE'', ''BSDF_GLASS'', ''EMISSION'',
                   ''BSDF_PRINCIPLED''}. t \<notin> dom (bsdfs_of obj)"
  shows "get_surface_rendering_attributes ifc_schema obj =
           Inr [''SurfaceColour'' \<mapsto> AColour \<lparr>Name = None, Red = diffuse_color obj ! 0,
                   Green = diffuse_color obj ! 1, Blue = diffuse_color obj ! 2\<rparr>,
                ''Transparency'' \<mapsto> AFloat (float_sub 1 (diffuse_color obj ! 3)),
                ''ReflectanceMethod'' \<mapsto> AStr ''NOTDEFINED'',
                ''SpecularHighlight'' \<mapsto> ANone,
                ''DiffuseColour'' \<mapsto> AColour \<lparr>Name = None, Red = diffuse_color obj ! 0,
                   Green = diffuse_color obj ! 1, Blue = diffuse_color obj ! 2\<rparr>]"
proof -
  have m: "\<not> (surface_output \<noteq> None \<and> ntype (the surface_output) = ''MIX_SHADER'')"
    using nomix by (cases surface_output) auto
  have d: "''BSDF_GLOSSY'' \<notin> dom (bsdfs_of obj)" "''BSDF_DIFFUSE'' \<notin> dom (bsdfs_of obj)"
    "''BSDF_GLASS'' \<notin> dom (bsdfs_of obj)" "''EMISSION'' \<notin> dom (bsdfs_of obj)"
    "''BSDF_PRINCIPLED'' \<notin> dom (bsdfs_of obj)"
    using nobsdf by simp_all
  have c: "classify ifc_schema obj a vc surface_output =
             Inr (a(''ReflectanceMethod'' \<mapsto> AStr ''NOTDEFINED'',
                    ''SpecularHighlight'' \<mapsto> ANone, ''DiffuseColour'' \<mapsto> AColour vc))" for a vc
    unfolding classify_def Let_def if_not_P [OF m] nopr if_not_P [OF d(1)] if_not_P [OF d(2)]
      if_not_P [OF d(3)] if_not_P [OF d(4)] if_not_P [OF d(5)]
    by simp
  show ?thesis
    using rgba
    by (simp add: get_surface_rendering_attributes_def out surf c color_to_ifc_format_def Let_def)
qed

lemma unlinked_output_defaults:
  "get_surface_rendering_attributes ''IFC4'' (example_material [example_unlinked_output]) =
     Inr [''SurfaceColour'' \<mapsto> AColour \<lparr>Name = None, Red = 1 / 2, Green = 1 / 4, Blue = 1 / 8\<rparr>,
          ''Transparency'' \<mapsto> AFloat 0,
          ''ReflectanceMethod'' \<mapsto> AStr ''NOTDEFINED'',
          ''SpecularHighlight'' \<mapsto> ANone,
          ''DiffuseColour'' \<mapsto> AColour \<lparr>Name = None, Red = 1 / 2, Green = 1 / 4, Blue = 1 / 8\<rparr>]"
  using unrecognised_graph_defaults [of "example_material [example_unlinked_output]"
      example_unlinked_output None "''IFC4''"]
  by (simp add: example_defs get_material_node_def get_input_node_def input_by_name_def
      principled_of_def bsdfs_of_def)

subsection \<open>The classifier returns on well-formed materials\<close>

lemma wf_node_sockets_ok: "wf_node n \<Longrightarrow> sockets_ok n"
  by (cases n) simp

lemma wf_node_upstream:
  assumes "wf_node n" "s \<in> set (inputs n)" "l \<in> set (links s)"
  shows "wf_node (from_node l)"
proof -
  from assms(1,2) have "wf_socket s"
    by (cases n) simp
  with assms(3) have "wf_link l"
    by (cases s) simp
  then show ?thesis
    by (cases l) simp
qed

lemma find_in_set: "find P xs = Some x \<Longrightarrow> x \<in> set xs \<and> P x"
  by (induction xs) (auto split: if_splits)

lemma get_input_node_upstream:
  assumes "get_input_node (Some n) name ty idx = Inr (Some m)"
  shows "\<exists>s \<in> set (inputs n). \<exists>l \<in> set (links s). m = from_node l"
proof -
  from assms obtain s where pin: "(case idx of
                   None \<Rightarrow> (case name of
                               None \<Rightarrow> Inl TypeError
                             | Some name \<Rightarrow> input_by_name n name)
                 | Some i \<Rightarrow> input_by_index n i) = Inr s"
    and m: "(if ty \<noteq> None \<and> ty \<noteq> Some []
             then find (\<lambda>m. Some (ntype m) = ty) (map from_node (links s))
             else (case links s of [] \<Rightarrow> None | l # _ \<Rightarrow> Some (from_node l))) = Some m"
    unfolding get_input_node_def ebind_def
    by (simp split: sum.splits if_splits)
  from pin have s: "s \<in> set (inputs n)"
    by (auto simp: input_by_name_def input_by_index_def
        split: option.splits if_splits dest: find_in_set)
  from m have "m \<in> from_node ` set (links s)"
    by (auto split: if_splits list.splits dest: find_in_set)
  with s show ?thesis by auto
qed

lemma get_input_node_of_type:
  assumes "get_input_node (Some n) name (Some (t # ts)) idx = Inr (Some m)"
  shows "ntype m = t # ts"
  using assms
  by (auto simp: get_input_node_def ebind_def split: option.splits sum.splits dest: find_in_set)

lemma get_input_node_wf:
  "wf_node n \<Longrightarrow> get_input_node (Some n) name ty idx = Inr (Some m) \<Longrightarrow> wf_node m"
  using get_input_node_upstream wf_node_upstream by blast

lemma get_input_node_by_name_ok:
  "find (\<lambda>s. sname s = name) (inputs n) \<noteq> None
    \<Longrightarrow> \<exists>r. get_input_node (Some n) (Some name) ty None = Inr r"
  by (auto simp: get_input_node_def input_by_name_def)

lemma get_input_node_by_index_ok:
  "i < length (inputs n) \<Longrightarrow> \<exists>r. get_input_node (Some n) name ty (Some i) = Inr r"
  by (auto simp: get_input_node_def input_by_index_def)

lemma bsdfs_of_SomeD: "bsdfs_of obj t = Some b \<Longrightarrow> b \<in> set (nodes obj) \<and> ntype b = t"
  by (auto simp: bsdfs_of_def dest!: map_of_SomeD)

lemma float_inputD: "has_float_input n name \<Longrightarrow> \<exists>x. input_value n name = Inr (VFloat x)"
  by (auto simp: has_float_input_def split: sum.splits sockval.splits)

lemma colour_inputD:
  "has_colour_input n name \<Longrightarrow> \<exists>v. input_value n name = Inr v \<and> is_colour v"
  by (auto simp: has_colour_input_def split: sum.splits)

lemma finish_ok: "is_colour (snd r) \<Longrightarrow> \<exists>a. finish r = Inr a"
  by (auto simp: finish_def color_to_ifc_format_def is_colour_def split: sockval.splits)

lemma principled_branch_ok:
  assumes "sockets_ok b" "ntype b = ''BSDF_PRINCIPLED''"
  shows "\<exists>r. principled_branch s a b = Inr r \<and> is_colour (snd r)"
proof -
  from assms have "has_colour_input b ''Base Color''" "has_float_input b ''Metallic''"
    "has_float_input b ''Roughness''" "has_float_input b ''Alpha''"
    by (simp_all add: sockets_ok_def)
  then obtain c m r al where "input_value b ''Base Color'' = Inr c" "is_colour c"
    "input_value b ''Metallic'' = Inr (VFloat m)" "input_value b ''Roughness'' = Inr (VFloat r)"
    "input_value b ''Alpha'' = Inr (VFloat al)"
    by (blast dest: float_inputD colour_inputD)
  then show ?thesis
    by (simp add: principled_branch_def round_value_def one_minus_def Let_def)
qed

lemma rough_branch_ok:
  assumes "sockets_ok b"
    "ntype b = ''BSDF_GLOSSY'' \<or> ntype b = ''BSDF_DIFFUSE'' \<or> ntype b = ''BSDF_GLASS''"
  shows "\<exists>r. rough_branch m a b = Inr r \<and> is_colour (snd r)"
proof -
  from assms have "has_float_input b ''Roughness''" "has_colour_input b ''Color''"
    by (auto simp: sockets_ok_def)
  then obtain c r where "input_value b ''Color'' = Inr c" "is_colour c"
    "input_value b ''Roughness'' = Inr (VFloat r)"
    by (blast dest: float_inputD colour_inputD)
  then show ?thesis
    by (simp add: rough_branch_def round_value_def)
qed

lemma emission_branch_ok:
  assumes "sockets_ok b" "ntype b = ''EMISSION''"
  shows "\<exists>r. emission_branch a b = Inr r \<and> is_colour (snd r)"
proof -
  from assms have "has_colour_input b ''Color''"
    by (auto simp: sockets_ok_def)
  then obtain c where "input_value b ''Color'' = Inr c" "is_colour c"
    by (blast dest: colour_inputD)
  then show ?thesis
    by (simp add: emission_branch_def)
qed

lemma flat_mix_pattern_ok:
  assumes "sockets_ok n" "ntype n = ''MIX_SHADER''"
  shows "\<exists>p. flat_mix_pattern n = Inr p"
proof -
  from assms have fac: "find (\<lambda>s. sname s = ''Fac'') (inputs n) \<noteq> None" and len: "3 \<le> length (inputs n)"
    by (simp_all add: sockets_ok_def)
  obtain r1 where r1: "get_input_node (Some n) (Some ''Fac'') (Some ''LIGHT_PATH'') None = Inr r1"
    using get_input_node_by_name_ok [OF fac] by blast
  obtain r2 where r2: "get_input_node (Some n) None (Some ''BSDF_TRANSPARENT'') (Some 1) = Inr r2"
    using get_input_node_by_index_ok [of 1 n] len by force
  obtain r3 where r3: "get_input_node (Some n) None None (Some 2) = Inr r3"
    using get_input_node_by_index_ok [of 2 n] len by force
  show ?thesis
    by (simp add: flat_mix_pattern_def r1 r2 r3 split: option.splits del: One_nat_def)
qed

lemma flat_mix_pattern_second:
  assumes "flat_mix_pattern n = Inr (Some s)"
  shows "get_input_node (Some n) None None (Some 2) = Inr (Some s)
         \<and> (ntype s = ''RGB'' \<or> ntype s = ''TEX_IMAGE'')"
  using assms
  by (auto simp: flat_mix_pattern_def ebind_def split: sum.splits option.splits if_splits)

lemma mix_shader_branch_ok:
  assumes wf: "wf_node n" and ty: "ntype n = ''MIX_SHADER''"
    and dc: "3 \<le> length dc" and pc: "3 \<le> length (props_diffuse_color obj)"
  shows "\<exists>r. mix_shader_branch obj a (VColor dc) n = Inr r \<and> is_colour (snd r)"
proof -
  obtain p where p: "flat_mix_pattern n = Inr p"
    using flat_mix_pattern_ok [OF wf_node_sockets_ok [OF wf] ty] by blast
  show ?thesis
  proof (cases p)
    case None
    with p dc show ?thesis
      by (simp add: mix_shader_branch_def is_colour_def)
  next
    case (Some s)
    with p have s2: "get_input_node (Some n) None None (Some 2) = Inr (Some s)"
      and sty: "ntype s = ''RGB'' \<or> ntype s = ''TEX_IMAGE''"
      using flat_mix_pattern_second by blast+
    have "wf_node s"
      using get_input_node_wf [OF wf s2] .
    then have ok: "sockets_ok s"
      by (rule wf_node_sockets_ok)
    show ?thesis
    proof (cases "ntype s = ''RGB''")
      case True
      with ok have "outputs s \<noteq> []" "is_colour (default_value (hd (outputs s)))"
        by (simp_all add: sockets_ok_def)
      with True p Some show ?thesis
        by (cases "outputs s") (simp_all add: mix_shader_branch_def)
    next
      case False
      with p Some pc show ?thesis
        by (simp add: mix_shader_branch_def is_colour_def)
    qed
  qed
qed

lemma principled_of_ok:
  assumes "\<And>n. surface_output = Some n \<Longrightarrow> wf_node n"
  shows "\<exists>b. principled_of surface_output = Inr b
            \<and> (\<forall>n. b = Some n \<longrightarrow> wf_node n \<and> ntype n = ''BSDF_PRINCIPLED'')"
proof (cases surface_output)
  case None
  then show ?thesis by (simp add: principled_of_def)
next
  case (Some so)
  then have wf: "wf_node so" using assms by simp
  show ?thesis
  proof (cases "ntype so = ''BSDF_PRINCIPLED''")
    case True
    with Some wf show ?thesis by (simp add: principled_of_def)
  next
    case np: False
    show ?thesis
    proof (cases "ntype so = ''ADD_SHADER''")
      case True
      with wf_node_sockets_ok [OF wf] have "1 < length (inputs so)"
        by (simp add: sockets_ok_def)
      then obtain r where r: "get_input_node (Some so) None (Some ''BSDF_PRINCIPLED'') (Some 1) = Inr r"
        using get_input_node_by_index_ok by blast
      have "wf_node m \<and> ntype m = ''BSDF_PRINCIPLED''" if "r = Some m" for m
        using that r get_input_node_wf [OF wf] get_input_node_of_type by blast
      with Some True r show ?thesis
        by (simp add: principled_of_def)
    next
      case False
      with Some np show ?thesis by (simp add: principled_of_def)
    qed
  qed
qed

lemma classify_ok:
  assumes nodes: "\<forall>n \<in> set (nodes obj). wf_node n"
    and so: "\<And>n. surface_output = Some n \<Longrightarrow> wf_node n"
    and dc: "3 \<le> length (diffuse_color obj)" and pc: "3 \<le> length (props_diffuse_color obj)"
  shows "\<exists>r. classify ifc_schema obj a vc surface_output = Inr r"
proof (cases "surface_output \<noteq> None \<and> ntype (the surface_output) = ''MIX_SHADER''")
  case True
  then obtain n where n: "surface_output = Some n" "ntype n = ''MIX_SHADER''"
    by auto
  obtain r where "mix_shader_branch obj a (VColor (diffuse_color obj)) n = Inr r" "is_colour (snd r)"
    using mix_shader_branch_ok [OF so [OF n(1)] n(2) dc pc] by blast
  moreover have "classify ifc_schema obj a vc surface_output =
      ebind (mix_shader_branch obj a (VColor (diffuse_color obj)) (the surface_output)) finish"
    unfolding classify_def Let_def if_P [OF True] ..
  ultimately show ?thesis
    using finish_ok [of r] n(1) by auto
next
  case nomix: False
  obtain b where b: "principled_of surface_output = Inr b"
    and bwf: "\<And>n. b = Some n \<Longrightarrow> wf_node n \<and> ntype n = ''BSDF_PRINCIPLED''"
    using principled_of_ok [of surface_output] so by blast
  have found: "sockets_ok (the (bsdfs_of obj t)) \<and> ntype (the (bsdfs_of obj t)) = t"
    if "t \<in> dom (bsdfs_of obj)" for t
  proof -
    from that obtain n where n: "bsdfs_of obj t = Some n"
      by blast
    then have "n \<in> set (nodes obj)" "ntype n = t"
      by (simp_all add: bsdfs_of_SomeD)
    with nodes n show ?thesis
      by (simp add: wf_node_sockets_ok)
  qed
  show ?thesis
  proof (cases b)
    case (Some bsdf)
    obtain r where "principled_branch ifc_schema a bsdf = Inr r" "is_colour (snd r)"
      using principled_branch_ok [of bsdf] bwf [OF Some] wf_node_sockets_ok by blast
    with finish_ok [of r] show ?thesis
      unfolding classify_def Let_def if_not_P [OF nomix] b Some by auto
  next
    case None
    have rough: "\<exists>x. ebind (rough_branch m a (the (bsdfs_of obj t))) finish = Inr x"
      if t1: "t \<in> dom (bsdfs_of obj)"
        and t2: "t = ''BSDF_GLOSSY'' \<or> t = ''BSDF_DIFFUSE'' \<or> t = ''BSDF_GLASS''"
      for m t
    proof -
      obtain r where "rough_branch m a (the (bsdfs_of obj t)) = Inr r" "is_colour (snd r)"
        using rough_branch_ok [of "the (bsdfs_of obj t)"] found [OF t1] t2 by blast
      with finish_ok [of r] show ?thesis by auto
    qed
    have emission: "\<exists>x. ebind (emission_branch a (the (bsdfs_of obj ''EMISSION''))) finish = Inr x"
      if "''EMISSION'' \<in> dom (bsdfs_of obj)"
    proof -
      note e = found [OF that]
      obtain r where "emission_branch a (the (bsdfs_of obj ''EMISSION'')) = Inr r" "is_colour (snd r)"
        using emission_branch_ok [of "the (bsdfs_of obj ''EMISSION'')"] e by blast
      with finish_ok [of r] show ?thesis by auto
    qed
    have principled: "\<exists>x. ebind (principled_branch ifc_schema a
                        (the (bsdfs_of obj ''BSDF_PRINCIPLED''))) finish = Inr x"
      if "''BSDF_PRINCIPLED'' \<in> dom (bsdfs_of obj)"
    proof -
      note e = found [OF that]
      obtain r where "principled_branch ifc_schema a (the (bsdfs_of obj ''BSDF_PRINCIPLED'')) = Inr r"
        "is_colour (snd r)"
        using principled_branch_ok [of "the (bsdfs_of obj ''BSDF_PRINCIPLED'')"] e
        by blast
      with finish_ok [of r] show ?thesis by auto
    qed
    have start: "classify ifc_schema obj a vc surface_output =
        (if ''BSDF_GLOSSY'' \<in> dom (bsdfs_of obj)
            then ebind (rough_branch ''METAL'' a (the (bsdfs_of obj ''BSDF_GLOSSY''))) finish
            else if ''BSDF_DIFFUSE'' \<in> dom (bsdfs_of obj)
            then ebind (rough_branch ''MATT'' a (the (bsdfs_of obj ''BSDF_DIFFUSE''))) finish
            else if ''BSDF_GLASS'' \<in> dom (bsdfs_of obj)
            then ebind (rough_branch ''GLASS'' a (the (bsdfs_of obj ''BSDF_GLASS''))) finish
            else if ''EMISSION'' \<in> dom (bsdfs_of obj)
            then ebind (emission_branch a (the (bsdfs_of obj ''EMISSION''))) finish
            else if ''BSDF_PRINCIPLED'' \<in> dom (bsdfs_of obj)
            then ebind (principled_branch ifc_schema a (the (bsdfs_of obj ''BSDF_PRINCIPLED'')))
                   finish
            else Inr (a(''ReflectanceMethod'' \<mapsto> AStr ''NOTDEFINED'',
                        ''SpecularHighlight'' \<mapsto> ANone,
                        ''DiffuseColour'' \<mapsto> AColour vc)))"
      unfolding classify_def Let_def if_not_P [OF nomix] b None by simp
    show ?thesis
      unfolding start
      using rough [of "''BSDF_GLOSSY''"] rough [of "''BSDF_DIFFUSE''"] rough [of "''BSDF_GLASS''"]
        emission principled
      by (simp only: split: if_split) blast
  qed
qed

text \<open>
  On a material with an RGBA viewport colour whose graph has an active material-output
  node and whose nodes carry the sockets of their types, the classifier returns a record
  for every schema: the missing output node is the only way it raises on the graphs of
  the host editor.
\<close>
lemma classifier_returns_on_wf_material:
  assumes "wf_material obj"
  shows "\<exists>a. get_surface_rendering_attributes ifc_schema obj = Inr a"
proof -
  from assms have rgba: "length (diffuse_color obj) = 4"
    and pc: "3 \<le> length (props_diffuse_color obj)"
    and nodes: "\<forall>n \<in> set (nodes obj). wf_node n"
    and out: "get_material_node obj ''OUTPUT_MATERIAL'' True \<noteq> None"
    by (simp_all add: wf_material_def)
  from out obtain mo where mo: "get_material_node obj ''OUTPUT_MATERIAL'' True = Some mo"
    by blast
  then have mo_in: "mo \<in> set (nodes obj)" and mo_ty: "ntype mo = ''OUTPUT_MATERIAL''"
    by (auto simp: get_material_node_def dest: find_in_set)
  then have wf_mo: "wf_node mo"
    using nodes by blast
  with mo_ty have "find (\<lambda>s. sname s = ''Surface'') (inputs mo) \<noteq> None"
    using wf_node_sockets_ok [of mo] by (simp add: sockets_ok_def)
  then obtain so where so: "get_input_node (Some mo) (Some ''Surface'') None None = Inr so"
    using get_input_node_by_name_ok by blast
  have "wf_node n" if "so = Some n" for n
    using that so get_input_node_wf [OF wf_mo] by blast
  then obtain r where
    "classify ifc_schema obj [''SurfaceColour'' \<mapsto> AColour \<lparr>Name = None, Red = diffuse_color obj ! 0,
        Green = diffuse_color obj ! 1, Blue = diffuse_color obj ! 2\<rparr>,
        ''Transparency'' \<mapsto> AFloat (float_sub 1 (diffuse_color obj ! 3))]
      \<lparr>Name = None, Red = diffuse_color obj ! 0,
        Green = diffuse_color obj ! 1, Blue = diffuse_color obj ! 2\<rparr> so = Inr r"
    using classify_ok [OF nodes _ _ pc, of so] rgba by force
  then show ?thesis
    using rgba
    by (simp add: get_surface_rendering_attributes_def mo so color_to_ifc_format_def Let_def)
qed

lemma diffuse_material_returns:
  "wf_material (example_material [example_diffuse True, example_output (example_diffuse True)])
   \<and> (\<exists>a. get_surface_rendering_attributes ''IFC4''
             (example_material [example_diffuse True, example_output (example_diffuse True)]) = Inr a)"
proof -
  have wf: "wf_material (example_material [example_diffuse True, example_output (example_diffuse True)])"
    by (simp add: wf_material_def example_defs sockets_ok_def has_float_input_def
        has_colour_input_def is_colour_def input_value_def input_by_name_def get_material_node_def)
  show ?thesis
    using wf classifier_returns_on_wf_material [OF wf] by simp
qed

subsection \<open>The method and the highlight of a returned record\<close>

text \<open>
  Whenever the classifier returns, a FLAT method comes with a null highlight, and the
  method is missing only when the surface output is a mix shader without the pattern
  of the FLAT branch.
\<close>

lemma finish_keeps:
  assumes "finish r = Inr a"
  shows "a ''ReflectanceMethod'' = fst r ''ReflectanceMethod''"
    "a ''SpecularHighlight'' = fst r ''SpecularHighlight''"
  using assms by (auto simp: finish_def ebind_eq_Inr)

lemma principled_branch_method:
  assumes "principled_branch s a0 b = Inr r"
  shows "fst r ''ReflectanceMethod'' = Some (AStr ''NOTDEFINED'')
         \<or> fst r ''ReflectanceMethod'' = Some (AStr ''PHYSICAL'')"
  using assms by (auto simp: principled_branch_def ebind_eq_Inr Let_def)

lemma rough_branch_method:
  assumes "rough_branch m a0 b = Inr r"
  shows "fst r ''ReflectanceMethod'' = Some (AStr m)"
  using assms by (auto simp: rough_branch_def ebind_eq_Inr)

lemma emission_branch_method:
  assumes "emission_branch a0 b = Inr r"
  shows "fst r ''ReflectanceMethod'' = Some (AStr ''FLAT'')"
    "fst r ''SpecularHighlight'' = Some ANone"
  using assms by (auto simp: emission_branch_def ebind_eq_Inr)

lemma mix_shader_branch_method:
  assumes "mix_shader_branch obj a0 d n = Inr r"
  shows "(flat_mix_pattern n = Inr None \<and> fst r = a0)
         \<or> (fst r ''ReflectanceMethod'' = Some (AStr ''FLAT'')
            \<and> fst r ''SpecularHighlight'' = Some ANone)"
proof -
  from assms obtain p where p: "flat_mix_pattern n = Inr p"
    by (auto simp: mix_shader_branch_def ebind_eq_Inr)
  show ?thesis
  proof (cases p)
    case None
    with assms p show ?thesis
      by (auto simp: mix_shader_branch_def)
  next
    case (Some s)
    with assms p show ?thesis
      by (auto simp: mix_shader_branch_def Let_def split: if_splits list.splits)
  qed
qed

lemma classify_method:
  assumes c: "classify s obj a0 vc so = Inr a"
    and a0: "a0 ''ReflectanceMethod'' = None"
  shows "(a ''ReflectanceMethod'' = Some (AStr ''FLAT'') \<longrightarrow> a ''SpecularHighlight'' = Some ANone)
         \<and> (a ''ReflectanceMethod'' = None \<longrightarrow>
               (\<exists>n. so = Some n \<and> ntype n = ''MIX_SHADER'' \<and> flat_mix_pattern n = Inr None))"
proof (cases "so \<noteq> None \<and> ntype (the so) = ''MIX_SHADER''")
  case True
  then obtain n where n: "so = Some n" "ntype n = ''MIX_SHADER''"
    by auto
  have "classify s obj a0 vc so =
      ebind (mix_shader_branch obj a0 (VColor (diffuse_color obj)) (the so)) finish"
    unfolding classify_def Let_def if_P [OF True] ..
  with c n have "ebind (mix_shader_branch obj a0 (VColor (diffuse_color obj)) n) finish = Inr a"
    by simp
  then obtain r where r: "mix_shader_branch obj a0 (VColor (diffuse_color obj)) n = Inr r"
    and f: "finish r = Inr a"
    unfolding ebind_eq_Inr by blast
  from mix_shader_branch_method [OF r] finish_keeps [OF f] a0 n show ?thesis
    by auto
next
  case False
  let ?B = "bsdfs_of obj"
  have start: "classify s obj a0 vc so =
      ebind (principled_of so) (\<lambda>b. case b of
          Some bsdf \<Rightarrow> ebind (principled_branch s a0 bsdf) finish
        | None \<Rightarrow>
            if ''BSDF_GLOSSY'' \<in> dom ?B
            then ebind (rough_branch ''METAL'' a0 (the (?B ''BSDF_GLOSSY''))) finish
            else if ''BSDF_DIFFUSE'' \<in> dom ?B
            then ebind (rough_branch ''MATT'' a0 (the (?B ''BSDF_DIFFUSE''))) finish
            else if ''BSDF_GLASS'' \<in> dom ?B
            then ebind (rough_branch ''GLASS'' a0 (the (?B ''BSDF_GLASS''))) finish
            else if ''EMISSION'' \<in> dom ?B
            then ebind (emission_branch a0 (the (?B ''EMISSION''))) finish
            else if ''BSDF_PRINCIPLED'' \<in> dom ?B
            then ebind (principled_branch s a0 (the (?B ''BSDF_PRINCIPLED''))) finish
            else Inr (a0(''ReflectanceMethod'' \<mapsto> AStr ''NOTDEFINED'',
                         ''SpecularHighlight'' \<mapsto> ANone,
                         ''DiffuseColour'' \<mapsto> AColour vc)))"
    unfolding classify_def Let_def if_not_P [OF False] ..
  have principled: "a ''ReflectanceMethod'' = Some (AStr ''NOTDEFINED'')
      \<or> a ''ReflectanceMethod'' = Some (AStr ''PHYSICAL'')"
    if "ebind (principled_branch s a0 b) finish = Inr a" for b
  proof -
    from that obtain r where r: "principled_branch s a0 b = Inr r" and f: "finish r = Inr a"
      unfolding ebind_eq_Inr by blast
    from principled_branch_method [OF r] show ?thesis
      by (simp add: finish_keeps(1) [OF f])
  qed
  have rough: "a ''ReflectanceMethod'' = Some (AStr m)"
    if "ebind (rough_branch m a0 b) finish = Inr a" for m b
  proof -
    from that obtain r where r: "rough_branch m a0 b = Inr r" and f: "finish r = Inr a"
      unfolding ebind_eq_Inr by blast
    from rough_branch_method [OF r] show ?thesis
      by (simp add: finish_keeps(1) [OF f])
  qed
  have emission: "a ''ReflectanceMethod'' = Some (AStr ''FLAT'') \<and> a ''SpecularHighlight'' = Some ANone"
    if "ebind (emission_branch a0 b) finish = Inr a" for b
  proof -
    from that obtain r where r: "emission_branch a0 b = Inr r" and f: "finish r = Inr a"
      unfolding ebind_eq_Inr by blast
    from emission_branch_method [OF r] show ?thesis
      by (simp add: finish_keeps [OF f])
  qed
  from c obtain b where b: "principled_of so = Inr b"
    by (auto simp: start ebind_eq_Inr)
  have "(a ''ReflectanceMethod'' = Some (AStr ''FLAT'') \<longrightarrow> a ''SpecularHighlight'' = Some ANone)
         \<and> a ''ReflectanceMethod'' \<noteq> None"
  proof (cases b)
    case (Some bsdf)
    with c b have "ebind (principled_branch s a0 bsdf) finish = Inr a"
      by (simp add: start)
    from principled [OF this] show ?thesis
      by auto
  next
    case None
    with c b have tail: "(if ''BSDF_GLOSSY'' \<in> dom ?B
            then ebind (rough_branch ''METAL'' a0 (the (?B ''BSDF_GLOSSY''))) finish
            else if ''BSDF_DIFFUSE'' \<in> dom ?B
            then ebind (rough_branch ''MATT'' a0 (the (?B ''BSDF_DIFFUSE''))) finish
            else if ''BSDF_GLASS'' \<in> dom ?B
            then ebind (rough_branch ''GLASS'' a0 (the (?B ''BSDF_GLASS''))) finish
            else if ''EMISSION'' \<in> dom ?B
            then ebind (emission_branch a0 (the (?B ''EMISSION''))) finish
            else if ''BSDF_PRINCIPLED'' \<in> dom ?B
            then ebind (principled_branch s a0 (the (?B ''BSDF_PRINCIPLED''))) finish
            else Inr (a0(''ReflectanceMethod'' \<mapsto> AStr ''NOTDEFINED'',
                         ''SpecularHighlight'' \<mapsto> ANone,
                         ''DiffuseColour'' \<mapsto> AColour vc))) = Inr a"
      by (simp add: start)
    show ?thesis
    proof (cases "''BSDF_GLOSSY'' \<in> dom ?B")
      case True
      from tail have "ebind (rough_branch ''METAL'' a0 (the (?B ''BSDF_GLOSSY''))) finish = Inr a"
        unfolding if_P [OF True] .
      from rough [OF this] show ?thesis by simp
    next
      case n1: False
      show ?thesis
      proof (cases "''BSDF_DIFFUSE'' \<in> dom ?B")
        case True
        from tail have "ebind (rough_branch ''MATT'' a0 (the (?B ''BSDF_DIFFUSE''))) finish = Inr a"
          unfolding if_not_P [OF n1] if_P [OF True] .
        from rough [OF this] show ?thesis by simp
      next
        case n2: False
        show ?thesis
        proof (cases "''BSDF_GLASS'' \<in> dom ?B")
          case True
          from tail have "ebind (rough_branch ''GLASS'' a0 (the (?B ''BSDF_GLASS''))) finish = Inr a"
            unfolding if_not_P [OF n1] if_not_P [OF n2] if_P [OF True] .
          from rough [OF this] show ?thesis by simp
        next
          case n3: False
          show ?thesis
          proof (cases "''EMISSION'' \<in> dom ?B")
            case True
            from tail have "ebind (emission_branch a0 (the (?B ''EMISSION''))) finish = Inr a"
              unfolding if_not_P [OF n1] if_not_P [OF n2] if_not_P [OF n3] if_P [OF True] .
            from emission [OF this] show ?thesis by simp
          next
            case n4: False
            show ?thesis
            proof (cases "''BSDF_PRINCIPLED'' \<in> dom ?B")
              case True
              from tail have "ebind (principled_branch s a0 (the (?B ''BSDF_PRINCIPLED''))) finish
                  = Inr a"
                unfolding if_not_P [OF n1] if_not_P [OF n2] if_not_P [OF n3] if_not_P [OF n4]
                  if_P [OF True] .
              from principled [OF this] show ?thesis by auto
            next
              case n5: False
              from tail have "Inr (a0(''ReflectanceMethod'' \<mapsto> AStr ''NOTDEFINED'',
                         ''SpecularHighlight'' \<mapsto> ANone,
                         ''DiffuseColour'' \<mapsto> AColour vc)) = (Inr a :: error + attributes)"
                unfolding if_not_P [OF n1] if_not_P [OF n2] if_not_P [OF n3] if_not_P [OF n4]
                  if_not_P [OF n5] .
              then have "a = a0(''ReflectanceMethod'' \<mapsto> AStr ''NOTDEFINED'',
                         ''SpecularHighlight'' \<mapsto> ANone,
                         ''DiffuseColour'' \<mapsto> AColour vc)"
                by simp
              then show ?thesis by simp
            qed
          qed
        qed
      qed
    qed
  qed
  then show ?thesis
    by auto
qed

lemma returned_method_and_highlight:
  assumes "get_surface_rendering_attributes s obj = Inr a"
  shows "(a ''ReflectanceMethod'' = Some (AStr ''FLAT'') \<longrightarrow> a ''SpecularHighlight'' = Some ANone)
         \<and> (a ''ReflectanceMethod'' = None \<longrightarrow>
               (\<exists>n. get_input_node (get_material_node obj ''OUTPUT_MATERIAL'' True)
                       (Some ''Surface'') None None = Inr (Some n)
                    \<and> ntype n = ''MIX_SHADER'' \<and> flat_mix_pattern n = Inr None))"
proof -
  from assms obtain vc so where
    so: "get_input_node (get_material_node obj ''OUTPUT_MATERIAL'' True)
           (Some ''Surface'') None None = Inr so"
    and c: "classify s obj [''SurfaceColour'' \<mapsto> AColour vc,
              ''Transparency'' \<mapsto> AFloat (float_sub 1 (diffuse_color obj ! 3))] vc so = Inr a"
    by (auto simp: get_surface_rendering_attributes_def ebind_eq_Inr Let_def split: if_splits)
  from classify_method [OF c] so show ?thesis
    by simp
qed

section \<open>Properties of the georeferencing editor\<close>

lemmas georef_defs =
  edit_georeferencing_def execute_def set_true_north_def set_context_true_north_def
  ensure_true_north_def assign_direction_ratios_def
  set_direction_ratios_def new_true_north_def create_IfcDirection_def setattrs_def
  setattr_def getattr_def get_inverse_def refers_def refs_of_def by_type_def is_a_def
  ifc_subtypes_def truthy_def seq_items_def seq_slice2_def seq_add_list_def seq_or_empty_def
  dict_or_empty_def ebind_def

lemmas doc_defs =
  example_toolkit_def example_context_def example_map_conversion_def example_projected_crs_def
  example_direction_def legacy_doc_def modern_doc_def

lemma upt3: "[0..<3] = [0, 1, 2]" by (simp add: upt_rec)

lemma upt_Suc0: "[0..<Suc 0] = [0]" by simp

text \<open>
  C1, counterexample. On a legacy document with one context and no project, a call with
  the true north [0, 1] creates a direction and attaches it to the context: the document
  is changed.
\<close>
theorem legacy_without_project_sets_true_north:
  "edit_georeferencing example_toolkit legacy_doc None None (Some (PyList [0, 1])) =
     Inr \<lparr>schema = ''IFC2X3'',
          entities = [example_context 3 (Ref 1), example_direction [0, 1, 0]]\<rparr>"
  by (simp add: georef_defs doc_defs)

text \<open>
  C6. The claim: with the true north (0, 1), the direction of a context of dimension 3
  gets the ratios (0, 1, 0.0), and that of a context of dimension 2 the ratios (0, 1).
  The annotation and the docstring of \<open>edit_georeferencing\<close> give \<open>true_north\<close> the type
  of a tuple; on the tuple (0, 1) and a context of dimension 3 the padding
  \<open>true_north[0:2] + [0.0]\<close> raises.
\<close>
theorem tuple_true_north_raises:
  "edit_georeferencing example_toolkit modern_doc None None (Some (PyTuple [0, 1]))
     = Inl TypeError"
  by (simp add: georef_defs doc_defs upt3)



subsection \<open>Attribute access\<close>

lemma setattr_Inr:
  assumes "setattr f i name v = Inr f'"
  shows "i < length (entities f)" "name \<in> fst ` set (attrs (entities f ! i))"
    "f' = f\<lparr>entities := (entities f)[i := (entities f ! i)
            \<lparr>attrs := AList.update name v (attrs (entities f ! i))\<rparr>]\<rparr>"
  using assms by (auto simp: setattr_def split: if_splits)

lemma setattr_schema: "setattr f i name v = Inr f' \<Longrightarrow> schema f' = schema f"
  using setattr_Inr(3) by fastforce

lemma setattr_length: "setattr f i name v = Inr f' \<Longrightarrow> length (entities f') = length (entities f)"
  using setattr_Inr(3) by fastforce

lemma setattr_other:
  assumes "setattr f i name v = Inr f'" "j \<noteq> i"
  shows "entities f' ! j = entities f ! j"
proof -
  note s = setattr_Inr [OF assms(1)]
  from assms(2) have "i \<noteq> j"
    by blast
  then show ?thesis
    by (subst s(3)) simp
qed

lemma setattr_etype:
  assumes "setattr f i name v = Inr f'"
  shows "etype (entities f' ! j) = etype (entities f ! j)"
proof (cases "j = i")
  case True
  note s = setattr_Inr [OF assms]
  show ?thesis
    by (subst s(3)) (simp add: True s(1))
next
  case False
  then show ?thesis
    by (simp add: setattr_other [OF assms])
qed

lemma getattr_setattr:
  assumes "setattr f i name v = Inr f'"
  shows "getattr f' j k = (if j = i \<and> k = name then Inr v else getattr f j k)"
proof -
  note s = setattr_Inr [OF assms]
  show ?thesis
  proof (cases "j = i")
    case True
    show ?thesis
      by (subst s(3)) (simp add: getattr_def update_conv' True s(1))
  next
    case False
    then have "i \<noteq> j"
      by blast
    then show ?thesis
      by (subst s(3)) (simp add: getattr_def)
  qed
qed

subsection \<open>Iteration\<close>

lemma for_each_invariant:
  assumes loop: "for_each body xs f = Inr f'" and start: "P f"
    and step: "\<And>x g g'. x \<in> set xs \<Longrightarrow> P g \<Longrightarrow> body x g = Inr g' \<Longrightarrow> P g'"
  shows "P f'"
  using loop start step
proof (induction xs arbitrary: f)
  case Nil
  then show ?case by simp
next
  case (Cons x xs)
  from Cons.prems(1) obtain g where g: "body x f = Inr g" and rest: "for_each body xs g = Inr f'"
    by (auto simp: ebind_eq_Inr)
  have "P g"
    using Cons.prems(3) [of x f g] Cons.prems(2) g by simp
  moreover have "\<And>y h h'. y \<in> set xs \<Longrightarrow> P h \<Longrightarrow> body y h = Inr h' \<Longrightarrow> P h'"
    using Cons.prems(3) by (meson list.set_intros(2))
  ultimately show ?case
    using Cons.IH [OF rest] by blast
qed

lemma grows_refl: "grows f f"
  by (simp add: grows_def)

lemma grows_trans:
  assumes "grows f g" "grows g h"
  shows "grows f h"
proof -
  have "etype (entities h ! i) = ''IfcDirection''"
    if "i < length (entities h)" "length (entities f) \<le> i" for i
  proof (cases "i < length (entities g)")
    case True
    with assms that show ?thesis by (simp add: grows_def)
  next
    case False
    with assms that show ?thesis by (simp add: grows_def)
  qed
  moreover have "etype (entities h ! i) = etype (entities f ! i)" if "i < length (entities f)" for i
    using assms that by (simp add: grows_def)
  ultimately show ?thesis
    using assms by (simp add: grows_def)
qed

lemma grows_setattr: "setattr f i name v = Inr f' \<Longrightarrow> grows f f'"
  by (simp add: grows_def setattr_schema setattr_length setattr_etype)

lemma grows_create: "grows f (fst (create_IfcDirection f))"
  by (auto simp: grows_def create_IfcDirection_def nth_append)

lemma grows_new_true_north:
  assumes "new_true_north c f = Inr f'"
  shows "grows f f'"
proof -
  from assms have "setattr (fst (create_IfcDirection f)) c ''TrueNorth''
      (Ref (snd (create_IfcDirection f))) = Inr f'"
    by (simp add: new_true_north_def split_def Let_def)
  then show ?thesis
    using grows_trans [OF grows_create grows_setattr] by blast
qed

lemma grows_set_direction_ratios:
  assumes "set_direction_ratios d v f = Inr f'"
  shows "grows f f'"
  using assms by (cases d) (simp_all add: set_direction_ratios_def grows_setattr)

lemma grows_ensure_true_north:
  assumes "ensure_true_north t c f = Inr f'"
  shows "grows f f'"
proof (cases "truthy t")
  case False
  with assms show ?thesis
    by (simp add: ensure_true_north_def grows_new_true_north)
next
  case True
  with assms show ?thesis
    by (cases t) (simp_all add: ensure_true_north_def grows_new_true_north grows_refl
        split: if_splits)
qed

lemma assign_direction_ratios_Inr:
  assumes "assign_direction_ratios tn c f = Inr f'"
  obtains direction v where "getattr f c ''TrueNorth'' = Inr direction"
    "set_direction_ratios direction v f = Inr f'"
  using assms unfolding assign_direction_ratios_def
  by (auto simp: ebind_eq_Inr split: if_splits)

lemma grows_assign_direction_ratios:
  assumes "assign_direction_ratios tn c f = Inr f'"
  shows "grows f f'"
  using assms by (elim assign_direction_ratios_Inr) (rule grows_set_direction_ratios)

lemma set_context_true_north_Inr:
  assumes "set_context_true_north tn c f = Inr f'"
  obtains t f1 where "getattr f c ''TrueNorth'' = Inr t" "ensure_true_north t c f = Inr f1"
    "assign_direction_ratios tn c f1 = Inr f'"
  using assms unfolding set_context_true_north_def
  by (auto simp: ebind_eq_Inr)

lemma grows_set_context_true_north:
  assumes "set_context_true_north tn c f = Inr f'"
  shows "grows f f'"
  using assms
  by (elim set_context_true_north_Inr)
    (blast intro: grows_trans grows_ensure_true_north grows_assign_direction_ratios)

lemma grows_set_true_north:
  assumes "set_true_north tn f = Inr f'"
  shows "grows f f'"
proof (cases "seq_items tn = []")
  case True
  with assms show ?thesis by (simp add: set_true_north_def grows_refl)
next
  case False
  with assms have loop: "for_each (set_context_true_north tn)
             (by_type f ''IfcGeometricRepresentationContext'' False) f = Inr f'"
    by (simp add: set_true_north_def)
  show ?thesis
  proof (rule for_each_invariant [OF loop, where P = "grows f"])
    show "grows f f" by (rule grows_refl)
  next
    fix x g g'
    assume "grows f g" "set_context_true_north tn x g = Inr g'"
    then show "grows f g'"
      by (blast intro: grows_trans grows_set_context_true_north)
  qed
qed

lemma by_type_grows:
  assumes g: "grows f f'" and t: "t \<noteq> ''IfcDirection''"
    and sub: "include_subtypes \<longrightarrow> ''IfcDirection'' \<notin> set (ifc_subtypes t)"
  shows "by_type f' t include_subtypes = by_type f t include_subtypes"
proof -
  let ?P = "\<lambda>h i. if include_subtypes then is_a (entities h ! i) t else etype (entities h ! i) = t"
  let ?n = "length (entities f)" and ?n' = "length (entities f')"
  from g have len: "?n \<le> ?n'"
    by (simp add: grows_def)
  have split: "[0..<?n'] = [0..<?n] @ [?n..<?n']"
    using len upt_add_eq_append [of 0 ?n "?n' - ?n"] by simp
  have old: "filter (?P f') [0..<?n] = filter (?P f) [0..<?n]"
    using g by (intro filter_cong) (auto simp: grows_def is_a_def)
  have new: "filter (?P f') [?n..<?n'] = []"
    using g t sub by (auto simp: grows_def is_a_def filter_empty_conv)
  show ?thesis
    unfolding by_type_def split filter_append old new by simp
qed

lemma set_true_north_empty: "seq_items tn = [] \<Longrightarrow> set_true_north tn f = Inr f"
  by (simp add: set_true_north_def)

lemma seq_or_empty_cases:
  "seq_items (seq_or_empty tn) = [] \<longleftrightarrow> (tn = None \<or> seq_items (the tn) = [])"
  by (cases tn) (auto simp: seq_or_empty_def seq_items_def)

lemma by_type_after_true_north:
  assumes "set_true_north tn f = Inr f1"
  shows "by_type f1 ''IfcProject'' True = by_type f ''IfcProject'' True"
    "by_type f1 ''IfcCoordinateOperation'' True = by_type f ''IfcCoordinateOperation'' True"
    "by_type f1 ''IfcProjectedCRS'' True = by_type f ''IfcProjectedCRS'' True"
    "by_type f1 ''IfcGeometricRepresentationContext'' False
       = by_type f ''IfcGeometricRepresentationContext'' False"
    "schema f1 = schema f"
proof -
  note g = grows_set_true_north [OF assms]
  show "by_type f1 ''IfcProject'' True = by_type f ''IfcProject'' True"
    by (rule by_type_grows [OF g]) (simp_all add: ifc_subtypes_def)
  show "by_type f1 ''IfcCoordinateOperation'' True = by_type f ''IfcCoordinateOperation'' True"
    by (rule by_type_grows [OF g]) (simp_all add: ifc_subtypes_def)
  show "by_type f1 ''IfcProjectedCRS'' True = by_type f ''IfcProjectedCRS'' True"
    by (rule by_type_grows [OF g]) (simp_all add: ifc_subtypes_def)
  show "by_type f1 ''IfcGeometricRepresentationContext'' False
       = by_type f ''IfcGeometricRepresentationContext'' False"
    by (rule by_type_grows [OF g]) simp_all
  show "schema f1 = schema f"
    using g by (simp add: grows_def)
qed

lemma edit_georeferencing_unfold:
  "edit_georeferencing tk f co crs tn =
     ebind (set_true_north (seq_or_empty tn) f)
       (after_true_north tk (dict_or_empty co) (dict_or_empty crs))"
  unfolding edit_georeferencing_def execute_def after_true_north_def
  by (simp cong: if_cong list.case_cong)

text \<open>
  C10. On a document of a schema other than IFC2X3 with no coordinate operation or no
  projected CRS, \<open>edit_georeferencing\<close> raises for all arguments; with no true north to
  set, and also with empty mappings, the error is the \<open>IndexError\<close> of the first-element
  lookup.
\<close>

theorem modern_path_requires_both_entities:
  assumes modern: "schema f \<noteq> ''IFC2X3''"
    and missing: "by_type f ''IfcCoordinateOperation'' True = []
                  \<or> by_type f ''IfcProjectedCRS'' True = []"
  shows "(\<exists>e. edit_georeferencing tk f co crs tn = Inl e)
         \<and> edit_georeferencing tk f (Some []) (Some []) None = Inl IndexError
         \<and> edit_georeferencing tk f None None None = Inl IndexError"
proof -
  have after: "after_true_north tk m1 m2 f1 = Inl IndexError"
    if "set_true_north s f = Inr f1" for m1 m2 f1 s
    using missing modern by_type_after_true_north [OF that]
    by (auto simp: after_true_north_def split: list.splits)
  have raised: "\<exists>e. edit_georeferencing tk f co crs tn = Inl e" for co crs tn
    by (cases "set_true_north (seq_or_empty tn) f") (simp_all add: edit_georeferencing_unfold after)
  have index: "edit_georeferencing tk f co crs None = Inl IndexError" for co crs
    using after [of "seq_or_empty None" f]
    by (simp add: edit_georeferencing_unfold set_true_north_empty seq_or_empty_cases)
  from raised index show ?thesis by blast
qed

theorem modern_path_requires_both_entities_witness:
  "schema (modern_doc\<lparr>entities := [example_context 3 Null, example_map_conversion]\<rparr>) \<noteq> ''IFC2X3''
   \<and> by_type (modern_doc\<lparr>entities := [example_context 3 Null, example_map_conversion]\<rparr>)
        ''IfcProjectedCRS'' True = []
   \<and> (\<exists>e. edit_georeferencing example_toolkit
             (modern_doc\<lparr>entities := [example_context 3 Null, example_map_conversion]\<rparr>)
             (Some [(''Eastings'', Num 5)]) None (Some (PyList [0, 1])) = Inl e)
   \<and> edit_georeferencing example_toolkit
        (modern_doc\<lparr>entities := [example_context 3 Null, example_map_conversion]\<rparr>)
        (Some []) (Some []) None = Inl IndexError"
proof -
  let ?f = "modern_doc\<lparr>entities := [example_context 3 Null, example_map_conversion]\<rparr>"
  have h1: "schema ?f \<noteq> ''IFC2X3''"
    by (simp add: doc_defs)
  have h2: "by_type ?f ''IfcProjectedCRS'' True = []"
    by (simp add: doc_defs by_type_def is_a_def ifc_subtypes_def)
  from h2 have h3: "by_type ?f ''IfcCoordinateOperation'' True = []
      \<or> by_type ?f ''IfcProjectedCRS'' True = []"
    by simp
  show ?thesis
    using h1 h2 modern_path_requires_both_entities [OF h1 h3, of example_toolkit
        "Some [(''Eastings'', Num 5)]" None "Some (PyList [0, 1])"]
    by simp
qed

text \<open>
  C1, amended. On an IFC2X3 document with no project, \<open>edit_georeferencing\<close> does what
  its true-north step does and nothing else, whatever the two mappings are; with an
  absent or empty true north the document is unchanged.
\<close>

theorem legacy_without_project_only_true_north:
  assumes legacy: "schema f = ''IFC2X3''"
    and noproject: "by_type f ''IfcProject'' True = []"
  shows "edit_georeferencing tk f co crs tn = set_true_north (seq_or_empty tn) f
         \<and> edit_georeferencing tk f co crs None = Inr f
         \<and> edit_georeferencing tk f co crs (Some (PyList [])) = Inr f
         \<and> edit_georeferencing tk f co crs (Some (PyTuple [])) = Inr f"
proof -
  have after: "after_true_north tk m1 m2 f1 = Inr f1"
    if "set_true_north s f = Inr f1" for m1 m2 f1 s
    using legacy noproject by_type_after_true_north [OF that]
    by (simp add: after_true_north_def)
  have main: "edit_georeferencing tk f co crs tn = set_true_north (seq_or_empty tn) f" for tn
    by (cases "set_true_north (seq_or_empty tn) f") (simp_all add: edit_georeferencing_unfold after)
  have empty: "seq_items (seq_or_empty None) = []" "seq_items (seq_or_empty (Some (PyList []))) = []"
    "seq_items (seq_or_empty (Some (PyTuple []))) = []"
    by (simp_all add: seq_or_empty_def seq_items_def)
  show ?thesis
    using main empty [THEN set_true_north_empty, of f] by simp
qed

theorem legacy_without_project_only_true_north_witness:
  "schema legacy_doc = ''IFC2X3'' \<and> by_type legacy_doc ''IfcProject'' True = []
   \<and> edit_georeferencing example_toolkit legacy_doc (Some [(''Eastings'', Num 5)])
        (Some [(''Name'', Str ''EPSG:7856'')]) (Some (PyList [0, 1]))
      = set_true_north (PyList [0, 1]) legacy_doc
   \<and> edit_georeferencing example_toolkit legacy_doc (Some [(''Eastings'', Num 5)])
        (Some [(''Name'', Str ''EPSG:7856'')]) None = Inr legacy_doc"
proof -
  have h1: "schema legacy_doc = ''IFC2X3''"
    by (simp add: doc_defs)
  have h2: "by_type legacy_doc ''IfcProject'' True = []"
    by (simp add: doc_defs by_type_def is_a_def ifc_subtypes_def)
  show ?thesis
    using h1 h2 legacy_without_project_only_true_north [OF h1 h2, of example_toolkit
        "Some [(''Eastings'', Num 5)]" "Some [(''Name'', Str ''EPSG:7856'')]" "Some (PyList [0, 1])"]
    by (simp add: seq_or_empty_def seq_items_def)
qed

subsection \<open>The frame of the attribute updates\<close>

lemma same_but_refl: "same_but f f i keys"
  by (simp add: same_but_def)

lemma same_but_setattr:
  assumes "same_but f g i keys" "setattr g i name v = Inr g'" "name \<in> keys"
  shows "same_but f g' i keys"
  using assms
  by (simp add: same_but_def setattr_schema setattr_length setattr_etype getattr_setattr)

lemma same_but_setattrs:
  assumes "setattrs i m f = Inr f'"
  shows "same_but f f' i (fst ` set m)"
proof -
  from assms have loop: "for_each (\<lambda>kv g. setattr g i (fst kv) (snd kv)) m f = Inr f'"
    by (simp add: setattrs_def)
  show ?thesis
  proof (rule for_each_invariant [OF loop, where P = "\<lambda>g. same_but f g i (fst ` set m)"])
    show "same_but f f i (fst ` set m)"
      by (rule same_but_refl)
  next
    fix x g g'
    assume "x \<in> set m" "same_but f g i (fst ` set m)" "setattr g i (fst x) (snd x) = Inr g'"
    then show "same_but f g' i (fst ` set m)"
      by (simp add: same_but_setattr)
  qed
qed

text \<open>
  C7. A call on a document of a schema other than IFC2X3 that returns: after the
  true-north step, which leaves the document as it is when the true north is absent or
  empty, the only attribute values that change are those of the first coordinate
  operation named by a key of \<open>coordinate_operation\<close> and those of the first projected CRS
  named by a key of \<open>projected_crs\<close>; no entity is added and no type changes.
\<close>

theorem partial_update_frame:
  assumes modern: "schema f \<noteq> ''IFC2X3''"
    and ok: "edit_georeferencing tk f co crs tn = Inr f'"
  shows "\<exists>f1. set_true_north (seq_or_empty tn) f = Inr f1
           \<and> (seq_items (seq_or_empty tn) = [] \<longrightarrow> f1 = f)
           \<and> by_type f ''IfcCoordinateOperation'' True \<noteq> []
           \<and> by_type f ''IfcProjectedCRS'' True \<noteq> []
           \<and> schema f' = schema f1 \<and> length (entities f') = length (entities f1)
           \<and> (\<forall>i. etype (entities f' ! i) = etype (entities f1 ! i))
           \<and> (\<forall>i name. getattr f' i name \<noteq> getattr f1 i name \<longrightarrow>
                 (i = hd (by_type f ''IfcCoordinateOperation'' True)
                    \<and> name \<in> fst ` set (dict_or_empty co))
                 \<or> (i = hd (by_type f ''IfcProjectedCRS'' True)
                    \<and> name \<in> fst ` set (dict_or_empty crs)))"
proof -
  from ok obtain f1 where f1: "set_true_north (seq_or_empty tn) f = Inr f1"
    and rest: "after_true_north tk (dict_or_empty co) (dict_or_empty crs) f1 = Inr f'"
    by (auto simp: edit_georeferencing_unfold ebind_eq_Inr)
  note same = by_type_after_true_north [OF f1]
  from rest modern same obtain c cs p ps f2 where
    c: "by_type f ''IfcCoordinateOperation'' True = c # cs"
    and p: "by_type f ''IfcProjectedCRS'' True = p # ps"
    and f2: "setattrs c (dict_or_empty co) f1 = Inr f2"
    and f': "setattrs p (dict_or_empty crs) f2 = Inr f'"
    by (auto simp: after_true_north_def ebind_eq_Inr split: list.splits)
  note a = same_but_setattrs [OF f2] and b = same_but_setattrs [OF f']
  have skip: "f1 = f" if "seq_items (seq_or_empty tn) = []"
    using f1 set_true_north_empty [OF that, of f] by simp
  have frame: "(i = c \<and> name \<in> fst ` set (dict_or_empty co))
      \<or> (i = p \<and> name \<in> fst ` set (dict_or_empty crs))"
    if "getattr f' i name \<noteq> getattr f1 i name" for i name
  proof (cases "getattr f2 i name = getattr f1 i name")
    case True
    with that have "getattr f' i name \<noteq> getattr f2 i name" by simp
    with b show ?thesis by (simp add: same_but_def)
  next
    case False
    with a show ?thesis by (simp add: same_but_def)
  qed
  have "schema f' = schema f1" "length (entities f') = length (entities f1)"
    "\<forall>i. etype (entities f' ! i) = etype (entities f1 ! i)"
    using a b by (simp_all add: same_but_def)
  with f1 skip frame c p show ?thesis
    by auto
qed

theorem partial_update_frame_witness:
  "schema modern_doc \<noteq> ''IFC2X3''
   \<and> edit_georeferencing example_toolkit modern_doc (Some [(''Eastings'', Num 5)])
        (Some [(''Name'', Str ''EPSG:28356'')]) None = Inr updated_doc
   \<and> set_true_north (seq_or_empty None) modern_doc = Inr modern_doc
   \<and> getattr updated_doc 1 ''Northings'' = getattr modern_doc 1 ''Northings''
   \<and> getattr updated_doc 0 ''TrueNorth'' = getattr modern_doc 0 ''TrueNorth''"
proof -
  have h1: "schema modern_doc \<noteq> ''IFC2X3''"
    by (simp add: doc_defs)
  have h2: "edit_georeferencing example_toolkit modern_doc (Some [(''Eastings'', Num 5)])
        (Some [(''Name'', Str ''EPSG:28356'')]) None = Inr updated_doc"
    by (simp add: georef_defs doc_defs updated_doc_def upt3)
  have co: "hd (by_type modern_doc ''IfcCoordinateOperation'' True) = 1"
    and crs: "hd (by_type modern_doc ''IfcProjectedCRS'' True) = 2"
    by (simp_all add: doc_defs by_type_def is_a_def ifc_subtypes_def upt3)
  from partial_update_frame [OF h1 h2] obtain f1 where
    f1: "set_true_north (seq_or_empty None) modern_doc = Inr f1"
    and skip: "seq_items (seq_or_empty None) = [] \<longrightarrow> f1 = modern_doc"
    and frame: "\<forall>i name. getattr updated_doc i name \<noteq> getattr f1 i name \<longrightarrow>
                 (i = hd (by_type modern_doc ''IfcCoordinateOperation'' True)
                    \<and> name \<in> fst ` set (dict_or_empty (Some [(''Eastings'', Num 5)])))
                 \<or> (i = hd (by_type modern_doc ''IfcProjectedCRS'' True)
                    \<and> name \<in> fst ` set (dict_or_empty (Some [(''Name'', Str ''EPSG:28356'')])))"
    by blast
  from skip have eq: "f1 = modern_doc"
    by (simp add: seq_or_empty_def seq_items_def)
  from frame [rule_format, of 1 "''Northings''"] have n: "getattr updated_doc 1 ''Northings'' = getattr modern_doc 1 ''Northings''"
    unfolding eq co crs by (auto simp: dict_or_empty_def)
  from frame [rule_format, of 0 "''TrueNorth''"] have t: "getattr updated_doc 0 ''TrueNorth'' = getattr modern_doc 0 ''TrueNorth''"
    unfolding eq co crs by (auto simp: dict_or_empty_def)
  from h1 h2 f1 eq n t show ?thesis
    by simp
qed

section \<open>Copy on write of the true-north direction\<close>

subsection \<open>References under an attribute update\<close>

lemma set_update_subset: "set (AList.update k v al) \<subseteq> insert (k, v) (set al)"
  by (induction al) auto

lemma set_update_superset:
  "map_of al k = Some old \<Longrightarrow> set al \<subseteq> insert (k, old) (set (AList.update k v al))"
  by (induction al) (auto split: if_splits)

lemma update_mem: "(k, v) \<in> set (AList.update k v al)"
  by (induction al) auto

lemma refers_update_subset:
  assumes "refers (e\<lparr>attrs := AList.update k v (attrs e)\<rparr>) x"
  shows "refers e x \<or> x \<in> set (refs_of v)"
proof -
  from assms obtain kv where kv: "kv \<in> set (AList.update k v (attrs e))"
    and x: "x \<in> set (refs_of (snd kv))"
    by (auto simp: refers_def)
  from kv set_update_subset [of k v "attrs e"] have "kv = (k, v) \<or> kv \<in> set (attrs e)"
    by blast
  with x show ?thesis
    by (auto simp: refers_def)
qed

lemma refers_update_superset:
  assumes "map_of (attrs e) k = Some old" "refers e x" "x \<notin> set (refs_of old)"
  shows "refers (e\<lparr>attrs := AList.update k v (attrs e)\<rparr>) x"
proof -
  from assms(2) obtain kv where kv: "kv \<in> set (attrs e)" and x: "x \<in> set (refs_of (snd kv))"
    by (auto simp: refers_def)
  from kv set_update_superset [OF assms(1), of v]
  have "kv = (k, old) \<or> kv \<in> set (AList.update k v (attrs e))"
    by blast
  with x assms(3) show ?thesis
    by (auto simp: refers_def)
qed

lemma refers_update_new:
  assumes "x \<in> set (refs_of v)"
  shows "refers (e\<lparr>attrs := AList.update k v (attrs e)\<rparr>) x"
  using assms update_mem [of k v "attrs e"] by (force simp: refers_def)

lemma get_inverse_cong:
  assumes "length (entities f') = length (entities f)"
    and "\<And>j. j < length (entities f) \<Longrightarrow> refers (entities f' ! j) x = refers (entities f ! j) x"
  shows "get_inverse f' x = get_inverse f x"
  unfolding get_inverse_def assms(1)
  by (rule filter_cong) (simp_all add: assms(2))

lemma setattr_entity:
  assumes "setattr f i k v = Inr f'"
  shows "entities f' ! i = (entities f ! i)\<lparr>attrs := AList.update k v (attrs (entities f ! i))\<rparr>"
proof -
  note s = setattr_Inr [OF assms]
  show ?thesis
    by (subst s(3)) (simp add: s(1))
qed

lemma get_inverse_setattr:
  assumes s: "setattr f i k v = Inr f'"
    and same: "refers (entities f' ! i) x = refers (entities f ! i) x"
  shows "get_inverse f' x = get_inverse f x"
proof (rule get_inverse_cong)
  show "length (entities f') = length (entities f)"
    by (rule setattr_length [OF s])
next
  fix j
  show "refers (entities f' ! j) x = refers (entities f ! j) x"
    by (cases "j = i") (simp_all add: same setattr_other [OF s])
qed

lemma get_inverse_setattr_unreferenced:
  assumes s: "setattr f i k v = Inr f'"
    and before: "\<not> refers (entities f ! i) x" and new: "x \<notin> set (refs_of v)"
  shows "get_inverse f' x = get_inverse f x"
proof (rule get_inverse_setattr [OF s])
  have "\<not> refers (entities f' ! i) x"
    using refers_update_subset [where e = "entities f ! i" and k = k and v = v and x = x] before new
    by (auto simp: setattr_entity [OF s])
  with before show "refers (entities f' ! i) x = refers (entities f ! i) x"
    by simp
qed

lemma get_inverse_setattr_replaced:
  assumes s: "setattr f i k v = Inr f'"
    and old: "getattr f i k = Inr old" "x \<notin> set (refs_of old)" and new: "x \<notin> set (refs_of v)"
  shows "get_inverse f' x = get_inverse f x"
proof (rule get_inverse_setattr [OF s])
  from old(1) have m: "map_of (attrs (entities f ! i)) k = Some old"
    by (auto simp: getattr_def split: if_splits option.splits)
  show "refers (entities f' ! i) x = refers (entities f ! i) x"
    unfolding setattr_entity [OF s]
    using refers_update_subset [where e = "entities f ! i" and k = k and v = v and x = x]
      refers_update_superset [OF m, where x = x and v = v] old(2) new
    by blast
qed

lemma filter_eq_upt: "i < n \<Longrightarrow> filter (\<lambda>j. j = i) [0..<n] = [i]"
proof (induction n)
  case 0
  then show ?case by simp
next
  case (Suc n)
  show ?case
  proof (cases "i = n")
    case True
    then show ?thesis by (simp add: filter_empty_conv)
  next
    case False
    with Suc show ?thesis by simp
  qed
qed

lemma get_inverse_setattr_first:
  assumes s: "setattr f i k v = Inr f'"
    and none: "get_inverse f x = []" and new: "x \<in> set (refs_of v)"
  shows "get_inverse f' x = [i]"
proof -
  note i = setattr_Inr(1) [OF s]
  have "refers (entities f' ! j) x \<longleftrightarrow> j = i" if "j < length (entities f)" for j
  proof (cases "j = i")
    case True
    then show ?thesis
      by (simp add: setattr_entity [OF s] refers_update_new [OF new])
  next
    case False
    from none that have "\<not> refers (entities f ! j) x"
      by (auto simp: get_inverse_def filter_empty_conv)
    with False show ?thesis
      by (simp add: setattr_other [OF s])
  qed
  then have "get_inverse f' x = filter (\<lambda>j. j = i) [0..<length (entities f)]"
    unfolding get_inverse_def setattr_length [OF s]
    by (intro filter_cong) simp_all
  with i show ?thesis
    by (simp add: filter_eq_upt)
qed

lemma no_dangling_setattr:
  assumes s: "setattr f i k v = Inr f'" and c: "no_dangling f"
    and new: "\<forall>r \<in> set (refs_of v). r < length (entities f)"
  shows "no_dangling f'"
proof -
  have "r < length (entities f)"
    if "j < length (entities f)" "kv \<in> set (attrs (entities f' ! j))" "r \<in> set (refs_of (snd kv))"
    for j kv r
  proof (cases "j = i")
    case False
    with that c show ?thesis
      unfolding no_dangling_def setattr_other [OF s False]
      using nth_mem by blast
  next
    case True
    with that(2) have "kv = (k, v) \<or> kv \<in> set (attrs (entities f ! i))"
      using set_update_subset [of k v "attrs (entities f ! i)"]
      by (auto simp: setattr_entity [OF s])
    with that(1,3) True c new show ?thesis
      unfolding no_dangling_def using nth_mem by fastforce
  qed
  then show ?thesis
    unfolding no_dangling_def setattr_length [OF s, symmetric]
    by (metis in_set_conv_nth)
qed

subsection \<open>A new direction\<close>

lemma create_length: "length (entities (fst (create_IfcDirection f))) = Suc (length (entities f))"
  by (simp add: create_IfcDirection_def)

lemma create_snd: "snd (create_IfcDirection f) = length (entities f)"
  by (simp add: create_IfcDirection_def)

lemma create_old:
  "j < length (entities f) \<Longrightarrow> entities (fst (create_IfcDirection f)) ! j = entities f ! j"
  by (simp add: create_IfcDirection_def nth_append)

lemma create_new:
  "entities (fst (create_IfcDirection f)) ! length (entities f)
     = \<lparr>etype = ''IfcDirection'', attrs = [(''DirectionRatios'', Null)]\<rparr>"
  by (simp add: create_IfcDirection_def)

lemma getattr_create:
  "j < length (entities f) \<Longrightarrow> getattr (fst (create_IfcDirection f)) j k = getattr f j k"
  by (simp add: getattr_def create_IfcDirection_def nth_append)

lemma get_inverse_create: "get_inverse (fst (create_IfcDirection f)) x = get_inverse f x"
proof -
  have "filter (\<lambda>j. refers (entities (fst (create_IfcDirection f)) ! j) x) [0..<length (entities f)]
      = filter (\<lambda>j. refers (entities f ! j) x) [0..<length (entities f)]"
    by (rule filter_cong) (simp_all add: create_old)
  moreover have "\<not> refers (entities (fst (create_IfcDirection f)) ! length (entities f)) x"
    by (simp add: create_new refers_def refs_of_def)
  ultimately show ?thesis
    by (simp add: get_inverse_def create_length)
qed

lemma no_dangling_create:
  assumes "no_dangling f"
  shows "no_dangling (fst (create_IfcDirection f))"
  using assms
  by (auto simp: no_dangling_def create_IfcDirection_def refs_of_def less_Suc_eq)

lemma no_dangling_unreferenced:
  assumes "no_dangling f"
  shows "get_inverse f (length (entities f)) = []"
  using assms
  by (fastforce simp: get_inverse_def filter_empty_conv no_dangling_def refers_def)

subsection \<open>The two outcomes of the loop body\<close>

lemma new_true_north_Inr:
  assumes "new_true_north c f = Inr f1"
  shows "setattr (fst (create_IfcDirection f)) c ''TrueNorth'' (Ref (length (entities f))) = Inr f1"
  using assms by (simp add: new_true_north_def split_def Let_def create_snd)

lemma assign_direction_ratios_Ref:
  assumes "assign_direction_ratios tn c f = Inr f'" "getattr f c ''TrueNorth'' = Inr (Ref d)"
  obtains v where "setattr f d ''DirectionRatios'' (Nums v) = Inr f'"
proof -
  from assms obtain w where "set_direction_ratios (Ref d) w f = Inr f'"
    by (auto elim: assign_direction_ratios_Inr)
  then show thesis
    using that by (simp add: set_direction_ratios_def)
qed

lemma step_keeps:
  assumes t: "getattr g c ''TrueNorth'' = Inr (Ref d)" and one: "length (get_inverse g d) = 1"
    and step: "set_context_true_north tn c g = Inr g'"
  obtains v where "setattr g d ''DirectionRatios'' (Nums v) = Inr g'"
proof -
  from step t obtain f1 where f1: "ensure_true_north (Ref d) c g = Inr f1"
    and a: "assign_direction_ratios tn c f1 = Inr g'"
    by (auto elim: set_context_true_north_Inr)
  from f1 one have "f1 = g"
    by (simp add: ensure_true_north_def truthy_def)
  with a t that show thesis
    by (auto elim: assign_direction_ratios_Ref)
qed

lemma step_creates:
  assumes t: "getattr g c ''TrueNorth'' = Inr t"
    and other: "\<And>d. t = Ref d \<Longrightarrow> length (get_inverse g d) \<noteq> 1"
    and step: "set_context_true_north tn c g = Inr g'"
  obtains g2 v where
    "setattr (fst (create_IfcDirection g)) c ''TrueNorth'' (Ref (length (entities g))) = Inr g2"
    "setattr g2 (length (entities g)) ''DirectionRatios'' (Nums v) = Inr g'"
proof -
  from step t obtain f1 where f1: "ensure_true_north t c g = Inr f1"
    and a: "assign_direction_ratios tn c f1 = Inr g'"
    by (auto elim: set_context_true_north_Inr)
  have "new_true_north c g = Inr f1"
  proof (cases "truthy t")
    case False
    with f1 show ?thesis by (simp add: ensure_true_north_def)
  next
    case True
    with f1 other show ?thesis
      by (cases t) (simp_all add: ensure_true_north_def split: if_splits)
  qed
  then have s: "setattr (fst (create_IfcDirection g)) c ''TrueNorth''
      (Ref (length (entities g))) = Inr f1"
    by (rule new_true_north_Inr)
  then have "getattr f1 c ''TrueNorth'' = Inr (Ref (length (entities g)))"
    by (simp add: getattr_setattr)
  with a s that show thesis
    by (auto elim: assign_direction_ratios_Ref)
qed

subsection \<open>Directions of their own under an update\<close>

lemma getattr_Inr_length: "getattr f i k = Inr v \<Longrightarrow> i < length (entities f)"
  by (auto simp: getattr_def split: if_splits)

lemma getattr_refers:
  assumes "getattr f c k = Inr (Ref d)"
  shows "c \<in> set (get_inverse f d)"
proof -
  from assms have c: "c < length (entities f)" and "map_of (attrs (entities f ! c)) k = Some (Ref d)"
    by (auto simp: getattr_def split: if_splits option.splits)
  then have "(k, Ref d) \<in> set (attrs (entities f ! c))"
    by (simp add: map_of_SomeD)
  then have "refers (entities f ! c) d"
    by (force simp: refers_def refs_of_def)
  with c show ?thesis
    by (simp add: get_inverse_def)
qed

lemma own_direction_referrer:
  assumes "own_direction f d" "getattr f c k = Inr (Ref d)"
  shows "get_inverse f d = [c]"
proof -
  from assms(1) have "length (get_inverse f d) = 1"
    by (simp add: own_direction_def)
  then obtain y where y: "get_inverse f d = [y]"
    by (cases "get_inverse f d") simp_all
  with getattr_refers [OF assms(2)] show ?thesis
    by simp
qed

lemma not_referrer:
  assumes "get_inverse f d = [c]" "j \<noteq> c" "j < length (entities f)"
  shows "\<not> refers (entities f ! j) d"
proof
  assume "refers (entities f ! j) d"
  with assms(3) have "j \<in> set (get_inverse f d)"
    by (simp add: get_inverse_def)
  with assms(1,2) show False
    by simp
qed

lemma north_ok_setattr:
  assumes s: "setattr g j k v = Inr g'"
    and ok: "north_ok b g x"
    and xj: "x \<noteq> j"
    and new: "\<And>d. getattr g x ''TrueNorth'' = Inr (Ref d) \<Longrightarrow> d \<notin> set (refs_of v)"
  shows "north_ok b g' x"
proof -
  have same: "getattr g' x ''TrueNorth'' = getattr g x ''TrueNorth''"
    using xj by (simp add: getattr_setattr [OF s])
  have "own_direction g' d" if t: "getattr g x ''TrueNorth'' = Inr (Ref d)" for d
  proof -
    from ok t have own: "own_direction g d"
      by (simp add: north_ok_def)
    then have inv: "get_inverse g d = [x]"
      using t by (rule own_direction_referrer)
    have "\<not> refers (entities g ! j) d"
      using inv xj [symmetric] setattr_Inr(1) [OF s] by (rule not_referrer)
    then have "get_inverse g' d = get_inverse g d"
      using new [OF t] by (rule get_inverse_setattr_unreferenced [OF s])
    with own show ?thesis
      by (simp add: own_direction_def setattr_length [OF s] setattr_etype [OF s])
  qed
  with ok show ?thesis
    unfolding north_ok_def same
    by (auto split: sum.splits ifc_value.splits)
qed

lemma own_direction_create:
  assumes "own_direction f d"
  shows "own_direction (fst (create_IfcDirection f)) d"
  using assms
  by (simp add: own_direction_def create_length create_old get_inverse_create)

lemma north_ok_create:
  assumes "north_ok b f x"
  shows "north_ok b (fst (create_IfcDirection f)) x"
proof -
  from assms have "x < length (entities f)"
    by (auto simp: north_ok_def getattr_def split: if_splits)
  then have "getattr (fst (create_IfcDirection f)) x ''TrueNorth'' = getattr f x ''TrueNorth''"
    by (rule getattr_create)
  with assms show ?thesis
    unfolding north_ok_def
    by (auto split: sum.splits ifc_value.splits intro: own_direction_create)
qed

lemma own_direction_bound:
  assumes "own_direction f d" "get_inverse f n = []"
  shows "d \<noteq> n"
  using assms by (auto simp: own_direction_def)

subsection \<open>The loop body on a context\<close>

lemma step_on_own_direction:
  assumes t: "getattr g c ''TrueNorth'' = Inr (Ref d)" and own: "own_direction g d"
    and step: "set_context_true_north tn c g = Inr g'"
  shows "length (entities g') = length (entities g)"
    and "\<And>x b. x \<noteq> d \<Longrightarrow> north_ok b g x \<Longrightarrow> north_ok b g' x"
    and "\<And>x k. x \<noteq> d \<Longrightarrow> getattr g' x k = getattr g x k"
    and "no_dangling g \<Longrightarrow> no_dangling g'"
    and "grows g g'"
proof -
  from own have one: "length (get_inverse g d) = 1"
    by (simp add: own_direction_def)
  obtain v where s: "setattr g d ''DirectionRatios'' (Nums v) = Inr g'"
    using step_keeps [OF t one step] by blast
  show "length (entities g') = length (entities g)"
    by (rule setattr_length [OF s])
  show "north_ok b g' x" if "x \<noteq> d" "north_ok b g x" for x b
    using s that(2,1) by (rule north_ok_setattr) (simp add: refs_of_def)
  show "getattr g' x k = getattr g x k" if "x \<noteq> d" for x k
    using that by (simp add: getattr_setattr [OF s])
  show "no_dangling g'" if "no_dangling g"
    using s that by (rule no_dangling_setattr) (simp add: refs_of_def)
  show "grows g g'"
    by (rule grows_setattr [OF s])
qed

lemma step_on_absent_direction:
  assumes t: "getattr g c ''TrueNorth'' = Inr t"
    and shared: "\<forall>d. t = Ref d \<longrightarrow> length (get_inverse g d) \<noteq> 1"
    and step: "set_context_true_north tn c g = Inr g'"
  shows "length (entities g') = Suc (length (entities g))"
    and "getattr g' c ''TrueNorth'' = Inr (Ref (length (entities g)))"
    and "\<And>x. x < length (entities g) \<Longrightarrow> x \<noteq> c \<Longrightarrow> entities g' ! x = entities g ! x"
    and "no_dangling g \<Longrightarrow> no_dangling g' \<and> north_ok False g' c"
    and "\<And>x b. no_dangling g \<Longrightarrow> t = Null \<Longrightarrow> x \<noteq> c \<Longrightarrow> north_ok b g x \<Longrightarrow> north_ok b g' x"
proof -
  let ?n = "length (entities g)" and ?g1 = "fst (create_IfcDirection g)"
  from shared have other: "\<And>d. t = Ref d \<Longrightarrow> length (get_inverse g d) \<noteq> 1"
    by simp
  obtain g2 v where
    s1: "setattr ?g1 c ''TrueNorth'' (Ref ?n) = Inr g2"
    and s2: "setattr g2 ?n ''DirectionRatios'' (Nums v) = Inr g'"
    using step_creates [OF t other step] by blast
  from t have c: "c < ?n"
    by (rule getattr_Inr_length)
  then have cn: "c \<noteq> ?n"
    by simp
  show len: "length (entities g') = Suc ?n"
    by (simp add: setattr_length [OF s2] setattr_length [OF s1] create_length)
  show north: "getattr g' c ''TrueNorth'' = Inr (Ref ?n)"
    using cn by (simp add: getattr_setattr [OF s2] getattr_setattr [OF s1])
  show "entities g' ! x = entities g ! x" if "x < ?n" "x \<noteq> c" for x
    using that by (simp add: setattr_other [OF s2] setattr_other [OF s1] create_old)
  show "no_dangling g' \<and> north_ok False g' c" if nd: "no_dangling g"
  proof
    have "no_dangling g2"
      using s1 no_dangling_create [OF nd] by (rule no_dangling_setattr) (simp add: refs_of_def create_length)
    with s2 show "no_dangling g'"
      by (rule no_dangling_setattr) (simp add: refs_of_def)
    have "get_inverse ?g1 ?n = []"
      by (simp add: get_inverse_create no_dangling_unreferenced [OF nd])
    with s1 have i2: "get_inverse g2 ?n = [c]"
      by (rule get_inverse_setattr_first) (simp add: refs_of_def)
    have "\<not> refers (entities g2 ! ?n) ?n"
      using i2 cn [symmetric] by (rule not_referrer) (simp add: setattr_length [OF s1] create_length)
    then have "get_inverse g' ?n = [c]"
      using get_inverse_setattr_unreferenced [OF s2, of ?n] i2 by (simp add: refs_of_def)
    moreover have "etype (entities g' ! ?n) = ''IfcDirection''"
      by (simp add: setattr_etype [OF s2] setattr_etype [OF s1] create_new)
    ultimately show "north_ok False g' c"
      by (simp add: north_ok_def north own_direction_def len)
  qed
  show "north_ok b g' x" if nd: "no_dangling g" and null: "t = Null" and xc: "x \<noteq> c"
    and ok: "north_ok b g x" for x b
  proof -
    have none: "get_inverse ?g1 ?n = []"
      by (simp add: get_inverse_create no_dangling_unreferenced [OF nd])
    have ok1: "north_ok b ?g1 x"
      using ok by (rule north_ok_create)
    have ok2: "north_ok b g2 x"
      using s1 ok1 xc
    proof (rule north_ok_setattr)
      fix d
      assume d: "getattr ?g1 x ''TrueNorth'' = Inr (Ref d)"
      with ok1 have "own_direction ?g1 d"
        by (simp add: north_ok_def)
      then have "d \<noteq> ?n"
        using none by (rule own_direction_bound)
      then show "d \<notin> set (refs_of (Ref ?n))"
        by (simp add: refs_of_def)
    qed
    from ok have "x < ?n"
      by (auto simp: north_ok_def getattr_def split: if_splits)
    then have "x \<noteq> ?n"
      by simp
    with s2 ok2 show ?thesis
      by (rule north_ok_setattr) (simp add: refs_of_def)
  qed
qed

subsection \<open>Iterations that settle their elements\<close>

lemma for_each_processed_aux:
  assumes step: "\<And>x g g'. x \<in> A \<Longrightarrow> P g \<Longrightarrow> body x g = Inr g' \<Longrightarrow> P g' \<and> Q x g'"
    and keep: "\<And>x y g g'. x \<in> A \<Longrightarrow> y \<in> A \<Longrightarrow> P g \<Longrightarrow> Q x g \<Longrightarrow> body y g = Inr g' \<Longrightarrow> Q x g'"
  shows "for_each body xs f = Inr f' \<Longrightarrow> set xs \<subseteq> A \<Longrightarrow> S \<subseteq> A \<Longrightarrow> P f
          \<Longrightarrow> (\<forall>x \<in> S. Q x f) \<Longrightarrow> P f' \<and> (\<forall>x \<in> S \<union> set xs. Q x f')"
proof (induction xs arbitrary: f S)
  case Nil
  then show ?case by simp
next
  case (Cons y ys)
  from Cons.prems(1) obtain g where g: "body y f = Inr g" and rest: "for_each body ys g = Inr f'"
    by (auto simp: ebind_eq_Inr)
  from Cons.prems(2) have y: "y \<in> A" and ys: "set ys \<subseteq> A"
    by simp_all
  from step [OF y Cons.prems(4) g] have Pg: "P g" and Qy: "Q y g"
    by simp_all
  have "\<forall>x \<in> insert y S. Q x g"
    using Qy keep [OF _ y Cons.prems(4) _ g] Cons.prems(3,5) by blast
  moreover have "insert y S \<subseteq> A"
    using y Cons.prems(3) by simp
  ultimately have "P f' \<and> (\<forall>x \<in> insert y S \<union> set ys. Q x f')"
    using Cons.IH [OF rest ys _ Pg] by blast
  then show ?case
    by simp
qed

lemma for_each_processed:
  assumes loop: "for_each body xs f = Inr f'" and start: "P f"
    and step: "\<And>x g g'. x \<in> set xs \<Longrightarrow> P g \<Longrightarrow> body x g = Inr g' \<Longrightarrow> P g' \<and> Q x g'"
    and keep: "\<And>x y g g'. x \<in> set xs \<Longrightarrow> y \<in> set xs \<Longrightarrow> P g \<Longrightarrow> Q x g
                 \<Longrightarrow> body y g = Inr g' \<Longrightarrow> Q x g'"
  shows "P f' \<and> (\<forall>x \<in> set xs. Q x f')"
  using for_each_processed_aux [where A = "set xs" and S = "{}" and P = P and Q = Q, OF step keep loop]
    start by simp

subsection \<open>Contexts\<close>

lemma context_type:
  assumes "c \<in> set (by_type f ''IfcGeometricRepresentationContext'' False)"
  shows "c < length (entities f)" "etype (entities f ! c) = ''IfcGeometricRepresentationContext''"
  using assms by (simp_all add: by_type_def)

lemma context_type_grows:
  assumes "c \<in> set (by_type f ''IfcGeometricRepresentationContext'' False)" "grows f g"
  shows "etype (entities g ! c) = ''IfcGeometricRepresentationContext''"
  using assms context_type [OF assms(1)] by (simp add: grows_def)

lemma contexts_grows:
  "grows f g \<Longrightarrow> by_type g ''IfcGeometricRepresentationContext'' False
     = by_type f ''IfcGeometricRepresentationContext'' False"
  by (rule by_type_grows) simp_all

lemma north_ok_cases:
  assumes "north_ok b g c"
  obtains (absent) "b" "getattr g c ''TrueNorth'' = Inr Null"
  | (own) d where "getattr g c ''TrueNorth'' = Inr (Ref d)" "own_direction g d"
  using assms unfolding north_ok_def
  by (auto split: sum.splits ifc_value.splits)

lemma north_ok_weaken: "north_ok False g c \<Longrightarrow> north_ok b g c"
  by (auto simp: north_ok_def split: sum.splits ifc_value.splits)

lemma own_direction_not_context:
  assumes "own_direction g d" "etype (entities g ! c) = ''IfcGeometricRepresentationContext''"
  shows "c \<noteq> d"
  using assms by (auto simp: own_direction_def)

subsection \<open>The first pass gives every context a direction of its own\<close>

lemma first_pass:
  assumes nd: "no_dangling f" and un: "unshared_true_north f" and ne: "seq_items tn \<noteq> []"
    and r: "set_true_north tn f = Inr f1"
  shows "settled_true_north f1"
proof -
  let ?cs = "by_type f ''IfcGeometricRepresentationContext'' False"
  let ?P = "\<lambda>g. grows f g \<and> no_dangling g \<and> (\<forall>c \<in> set ?cs. north_ok True g c)"
  let ?Q = "\<lambda>x g. north_ok False g x"
  from r ne have loop: "for_each (set_context_true_north tn) ?cs f = Inr f1"
    by (simp add: set_true_north_def)
  have start: "?P f"
    using nd un by (simp add: grows_refl unshared_true_north_def)
  have step: "?P g' \<and> ?Q x g'"
    if x: "x \<in> set ?cs" and P: "?P g" and b: "set_context_true_north tn x g = Inr g'" for x g g'
  proof -
    from P have gr: "grows f g" and ndg: "no_dangling g" and ok: "\<forall>c \<in> set ?cs. north_ok True g c"
      by simp_all
    have gr': "grows f g'"
      using gr grows_set_context_true_north [OF b] by (rule grows_trans)
    from ok x have "north_ok True g x"
      by simp
    then show ?thesis
    proof (cases rule: north_ok_cases)
      case absent
      have other: "\<forall>d. Null = Ref d \<longrightarrow> length (get_inverse g d) \<noteq> 1"
        by simp
      note s = step_on_absent_direction [OF absent(2) other b]
      from s(4) [OF ndg] have ndg': "no_dangling g'" and okx: "north_ok False g' x"
        by simp_all
      have "north_ok True g' c" if "c \<in> set ?cs" for c
      proof (cases "c = x")
        case True
        with okx show ?thesis by (simp add: north_ok_weaken)
      next
        case False
        with s(5) [OF ndg refl False] ok that show ?thesis by simp
      qed
      with gr' ndg' okx show ?thesis
        by simp
    next
      case (own d)
      note s = step_on_own_direction [OF own b]
      have ne: "c \<noteq> d" if "c \<in> set ?cs" for c
        using own(2) context_type_grows [OF that gr] by (rule own_direction_not_context)
      have "north_ok True g' c" if "c \<in> set ?cs" for c
        using s(2) [OF ne [OF that]] ok that by simp
      moreover have "north_ok False g x"
        using own by (simp add: north_ok_def)
      then have "north_ok False g' x"
        using s(2) [OF ne [OF x]] by simp
      ultimately show ?thesis
        using gr' s(4) [OF ndg] by simp
    qed
  qed
  have keep: "?Q x g'"
    if x: "x \<in> set ?cs" and y: "y \<in> set ?cs" and P: "?P g" and Q: "?Q x g"
      and b: "set_context_true_north tn y g = Inr g'" for x y g g'
  proof -
    from P have gr: "grows f g" and ndg: "no_dangling g" and ok: "\<forall>c \<in> set ?cs. north_ok True g c"
      by simp_all
    from ok y have "north_ok True g y"
      by simp
    then show ?thesis
    proof (cases rule: north_ok_cases)
      case absent
      have other: "\<forall>d. Null = Ref d \<longrightarrow> length (get_inverse g d) \<noteq> 1"
        by simp
      from Q absent(2) have "x \<noteq> y"
        by (auto simp: north_ok_def)
      with step_on_absent_direction(5) [OF absent(2) other b ndg refl] Q show ?thesis
        by simp
    next
      case (own d)
      have "x \<noteq> d"
        using own(2) context_type_grows [OF x gr] by (rule own_direction_not_context)
      with step_on_own_direction(2) [OF own b] Q show ?thesis
        by simp
    qed
  qed
  have "?P f1 \<and> (\<forall>x \<in> set ?cs. ?Q x f1)"
  proof (rule for_each_processed [where P = ?P and Q = ?Q, OF loop start])
    fix x g g'
    assume "x \<in> set ?cs" "?P g" "set_context_true_north tn x g = Inr g'"
    then show "?P g' \<and> ?Q x g'"
      by (rule step)
  next
    fix x y g g'
    assume "x \<in> set ?cs" "y \<in> set ?cs" "?P g" "?Q x g" "set_context_true_north tn y g = Inr g'"
    then show "?Q x g'"
      by (rule keep)
  qed
  then have "grows f f1" and "\<forall>x \<in> set ?cs. north_ok False f1 x"
    by simp_all
  then show ?thesis
    by (simp add: settled_true_north_def contexts_grows [of f f1])
qed

subsection \<open>A pass over settled contexts creates nothing\<close>

lemma settled_pass:
  assumes st: "settled_true_north g" and r: "set_true_north tn g = Inr g'"
  shows "length (entities g') = length (entities g) \<and> settled_true_north g'
         \<and> (\<forall>c \<in> set (by_type g ''IfcGeometricRepresentationContext'' False).
               getattr g' c ''TrueNorth'' = getattr g c ''TrueNorth'')"
proof (cases "seq_items tn = []")
  case True
  with r st show ?thesis
    by (simp add: set_true_north_def)
next
  case False
  let ?cs = "by_type g ''IfcGeometricRepresentationContext'' False"
  let ?P = "\<lambda>h. grows g h \<and> length (entities h) = length (entities g)
      \<and> (\<forall>c \<in> set ?cs. north_ok False h c \<and> getattr h c ''TrueNorth'' = getattr g c ''TrueNorth'')"
  from r False have loop: "for_each (set_context_true_north tn) ?cs g = Inr g'"
    by (simp add: set_true_north_def)
  have start: "?P g"
    using st by (simp add: grows_refl settled_true_north_def)
  have step: "?P h'"
    if y: "y \<in> set ?cs" and P: "?P h" and b: "set_context_true_north tn y h = Inr h'" for y h h'
  proof -
    from P have gr: "grows g h" and len: "length (entities h) = length (entities g)"
      and ok: "\<forall>c \<in> set ?cs. north_ok False h c \<and> getattr h c ''TrueNorth'' = getattr g c ''TrueNorth''"
      by simp_all
    from ok y have "north_ok False h y"
      by simp
    then show ?thesis
    proof (cases rule: north_ok_cases)
      case absent
      then show ?thesis by simp
    next
      case (own d)
      note s = step_on_own_direction [OF own b]
      have ne: "c \<noteq> d" if "c \<in> set ?cs" for c
        using own(2) context_type_grows [OF that gr] by (rule own_direction_not_context)
      have "north_ok False h' c \<and> getattr h' c ''TrueNorth'' = getattr g c ''TrueNorth''"
        if "c \<in> set ?cs" for c
        using s(2) [OF ne [OF that]] s(3) [OF ne [OF that]] ok that by simp
      moreover have "grows g h'"
        using gr s(5) by (rule grows_trans)
      ultimately show ?thesis
        using s(1) len by simp
    qed
  qed
  have "?P g'"
  proof (rule for_each_invariant [where P = ?P, OF loop start])
    fix x h h'
    assume "x \<in> set ?cs" "?P h" "set_context_true_north tn x h = Inr h'"
    then show "?P h'"
      by (rule step)
  qed
  then show ?thesis
    by (simp add: settled_true_north_def contexts_grows [of g g'])
qed

subsection \<open>The attribute updates keep the directions of the contexts\<close>

lemma by_type_is_a:
  assumes "i \<in> set (by_type f t True)"
  shows "i < length (entities f)" "is_a (entities f ! i) t"
  using assms by (simp_all add: by_type_def)

lemma operation_not_context:
  "is_a e ''IfcCoordinateOperation'' \<Longrightarrow> etype e \<noteq> ''IfcGeometricRepresentationContext''"
  by (auto simp: is_a_def ifc_subtypes_def)

lemma crs_not_context:
  "is_a e ''IfcProjectedCRS'' \<Longrightarrow> etype e \<noteq> ''IfcGeometricRepresentationContext''"
  by (auto simp: is_a_def ifc_subtypes_def)

lemma settled_setattr_foreign:
  assumes st: "settled_true_north h" and s: "setattr h j k v = Inr h'"
    and j: "etype (entities h ! j) \<noteq> ''IfcGeometricRepresentationContext''"
    and v: "\<forall>r \<in> set (refs_of v). r < length (entities h)
              \<longrightarrow> etype (entities h ! r) \<noteq> ''IfcDirection''"
  shows "settled_true_north h'"
proof -
  let ?cs = "by_type h ''IfcGeometricRepresentationContext'' False"
  have "north_ok False h' c" if c: "c \<in> set ?cs" for c
  proof -
    from st c have ok: "north_ok False h c"
      by (simp add: settled_true_north_def)
    from j context_type(2) [OF c] have cj: "c \<noteq> j"
      by auto
    show ?thesis
      using s ok cj
    proof (rule north_ok_setattr)
      fix d
      assume d: "getattr h c ''TrueNorth'' = Inr (Ref d)"
      with ok have "own_direction h d"
        by (simp add: north_ok_def)
      with v show "d \<notin> set (refs_of v)"
        by (auto simp: own_direction_def)
    qed
  qed
  then show ?thesis
    by (simp add: settled_true_north_def contexts_grows [OF grows_setattr [OF s]])
qed

lemma settled_setattrs:
  assumes st: "settled_true_north h" and gr: "grows f h" and loop: "setattrs j m h = Inr h'"
    and j: "etype (entities h ! j) \<noteq> ''IfcGeometricRepresentationContext''"
    and vals: "plain_values f m"
  shows "settled_true_north h' \<and> grows f h'"
proof -
  let ?P = "\<lambda>g. settled_true_north g \<and> grows f g \<and> etype (entities g ! j) = etype (entities h ! j)"
  from loop have l: "for_each (\<lambda>kv g. setattr g j (fst kv) (snd kv)) m h = Inr h'"
    by (simp add: setattrs_def)
  have "?P h'"
  proof (rule for_each_invariant [where P = ?P, OF l])
    show "?P h"
      using st gr by simp
  next
    fix kv g g'
    assume kv: "kv \<in> set m" and P: "?P g" and s: "setattr g j (fst kv) (snd kv) = Inr g'"
    from P have stg: "settled_true_north g" and grg: "grows f g"
      and ty: "etype (entities g ! j) = etype (entities h ! j)"
      by simp_all
    have "etype (entities g ! r) \<noteq> ''IfcDirection''" if "r \<in> set (refs_of (snd kv))" for r
      using vals kv that grg by (auto simp: plain_values_def grows_def)
    then have "settled_true_north g'"
      using settled_setattr_foreign [OF stg s] ty j by simp
    moreover have "grows f g'"
      using grg grows_setattr [OF s] by (rule grows_trans)
    ultimately show "?P g'"
      using ty by (simp add: setattr_etype [OF s])
  qed
  then show ?thesis
    by simp
qed

lemma after_true_north_settled:
  assumes path: "schema h \<noteq> ''IFC2X3'' \<or> by_type h ''IfcProject'' True = []"
    and st: "settled_true_north h" and gr: "grows f h"
    and vco: "plain_values f co" and vcrs: "plain_values f crs"
    and r: "after_true_north tk co crs h = Inr h'"
  shows "settled_true_north h' \<and> grows f h' \<and> length (entities h') = length (entities h)
         \<and> (\<forall>c \<in> set (by_type h ''IfcGeometricRepresentationContext'' False).
               getattr h' c ''TrueNorth'' = getattr h c ''TrueNorth'')"
proof (cases "schema h = ''IFC2X3''")
  case True
  with path r have "h' = h"
    by (simp add: after_true_north_def)
  with st gr show ?thesis
    by simp
next
  case False
  with r obtain c cs p ps h2 where
    c: "by_type h ''IfcCoordinateOperation'' True = c # cs"
    and p: "by_type h ''IfcProjectedCRS'' True = p # ps"
    and h2: "setattrs c co h = Inr h2" and h': "setattrs p crs h2 = Inr h'"
    by (auto simp: after_true_north_def ebind_eq_Inr split: list.splits)
  note a = same_but_setattrs [OF h2] and b = same_but_setattrs [OF h']
  from c have "is_a (entities h ! c) ''IfcCoordinateOperation''"
    using by_type_is_a(2) [of c h "''IfcCoordinateOperation''"] by simp
  then have cty: "etype (entities h ! c) \<noteq> ''IfcGeometricRepresentationContext''"
    by (rule operation_not_context)
  from p have "is_a (entities h ! p) ''IfcProjectedCRS''"
    using by_type_is_a(2) [of p h "''IfcProjectedCRS''"] by simp
  then have pty: "etype (entities h ! p) \<noteq> ''IfcGeometricRepresentationContext''"
    by (rule crs_not_context)
  with a have pty2: "etype (entities h2 ! p) \<noteq> ''IfcGeometricRepresentationContext''"
    by (simp add: same_but_def)
  from settled_setattrs [OF st gr h2 cty vco] have st2: "settled_true_north h2" and gr2: "grows f h2"
    by simp_all
  from settled_setattrs [OF st2 gr2 h' pty2 vcrs] have st': "settled_true_north h'" and gr': "grows f h'"
    by simp_all
  have "getattr h' x ''TrueNorth'' = getattr h x ''TrueNorth''"
    if x: "x \<in> set (by_type h ''IfcGeometricRepresentationContext'' False)" for x
  proof -
    from context_type(2) [OF x] cty pty have "x \<noteq> c" "x \<noteq> p"
      by auto
    with a b show ?thesis
      unfolding same_but_def by metis
  qed
  moreover have "length (entities h') = length (entities h)"
    using a b by (simp add: same_but_def)
  ultimately show ?thesis
    using st' gr' by simp
qed

lemma grows_after_true_north:
  assumes path: "schema h \<noteq> ''IFC2X3'' \<or> by_type h ''IfcProject'' True = []"
    and r: "after_true_north tk co crs h = Inr h'"
  shows "grows h h'"
proof (cases "schema h = ''IFC2X3''")
  case True
  with path r show ?thesis
    by (simp add: after_true_north_def grows_refl)
next
  case False
  with r obtain c p h2 where h2: "setattrs c co h = Inr h2" and h': "setattrs p crs h2 = Inr h'"
    by (auto simp: after_true_north_def ebind_eq_Inr split: list.splits)
  from same_but_setattrs [OF h2] same_but_setattrs [OF h'] show ?thesis
    by (simp add: same_but_def grows_def)
qed

subsection \<open>Copy on write\<close>

lemma copy_on_write_step:
  assumes t: "getattr g c ''TrueNorth'' = Inr (Ref d)"
    and d: "d < length (entities g)" "d \<noteq> c"
    and step: "set_context_true_north tn c g = Inr g'"
  shows "if length (get_inverse g d) \<noteq> 1
         then length (entities g') = Suc (length (entities g))
              \<and> getattr g' c ''TrueNorth'' = Inr (Ref (length (entities g)))
              \<and> entities g' ! d = entities g ! d
         else length (entities g') = length (entities g)
              \<and> getattr g' c ''TrueNorth'' = Inr (Ref d)"
proof (cases "length (get_inverse g d) = 1")
  case True
  obtain v where s: "setattr g d ''DirectionRatios'' (Nums v) = Inr g'"
    using step_keeps [OF t True step] by blast
  from True show ?thesis
    by (simp add: setattr_length [OF s] getattr_setattr [OF s] t)
next
  case False
  then have shared: "\<forall>d'. Ref d = Ref d' \<longrightarrow> length (get_inverse g d') \<noteq> 1"
    by simp
  note s = step_on_absent_direction [OF t shared step]
  from False s(1) s(2) s(3) [OF d] show ?thesis
    by simp
qed

text \<open>
  C5. On a document without dangling references in which every context's existing
  true-north direction is a direction entity with exactly one referrer, two calls of
  \<open>edit_georeferencing\<close> with the same non-empty true north (on the paths that the
  sources at hand decide: a schema other than IFC2X3, or no project) and with mappings
  whose values refer to no direction: the second call adds no entity and leaves the
  true-north reference of every context as the first call left it. In every run of the
  loop body on a context whose true north is the entity \<open>d\<close>, a new direction is created
  and attached exactly when the number of referrers of \<open>d\<close> is not 1, and then \<open>d\<close>
  itself is left as it is.
\<close>
theorem true_north_copy_on_write:
  assumes closed: "no_dangling f" and unshared: "unshared_true_north f"
    and nonempty: "seq_items tn \<noteq> []"
    and path: "schema f \<noteq> ''IFC2X3'' \<or> by_type f ''IfcProject'' True = []"
    and vals: "plain_values f (dict_or_empty co)" "plain_values f (dict_or_empty crs)"
    and first: "edit_georeferencing tk f co crs (Some tn) = Inr f1"
    and second: "edit_georeferencing tk f1 co crs (Some tn) = Inr f2"
  shows "length (entities f2) = length (entities f1)
         \<and> (\<forall>c \<in> set (by_type f ''IfcGeometricRepresentationContext'' False).
               getattr f2 c ''TrueNorth'' = getattr f1 c ''TrueNorth'')
         \<and> (\<forall>g c d g'. getattr g c ''TrueNorth'' = Inr (Ref d) \<and> d < length (entities g)
               \<and> d \<noteq> c \<and> set_context_true_north tn c g = Inr g' \<longrightarrow>
               (if length (get_inverse g d) \<noteq> 1
                then length (entities g') = Suc (length (entities g))
                     \<and> getattr g' c ''TrueNorth'' = Inr (Ref (length (entities g)))
                     \<and> entities g' ! d = entities g ! d
                else length (entities g') = length (entities g)
                     \<and> getattr g' c ''TrueNorth'' = Inr (Ref d)))"
proof -
  let ?C = "\<lambda>h. by_type h ''IfcGeometricRepresentationContext'' False"
  from nonempty have tn: "seq_or_empty (Some tn) = tn"
    by (simp add: seq_or_empty_def)
  from first obtain g1 where g1: "set_true_north tn f = Inr g1"
    and r1: "after_true_north tk (dict_or_empty co) (dict_or_empty crs) g1 = Inr f1"
    by (auto simp: edit_georeferencing_unfold ebind_eq_Inr tn)
  from second obtain g2 where g2: "set_true_north tn f1 = Inr g2"
    and r2: "after_true_north tk (dict_or_empty co) (dict_or_empty crs) g2 = Inr f2"
    by (auto simp: edit_georeferencing_unfold ebind_eq_Inr tn)
  have path_of: "schema h \<noteq> ''IFC2X3'' \<or> by_type h ''IfcProject'' True = []" if "grows f h" for h
  proof -
    have "by_type h ''IfcProject'' True = by_type f ''IfcProject'' True"
      by (rule by_type_grows [OF that]) (simp_all add: ifc_subtypes_def)
    moreover from that have "schema h = schema f"
      by (simp add: grows_def)
    ultimately show ?thesis
      using path by simp
  qed
  have gr1: "grows f g1"
    by (rule grows_set_true_north [OF g1])
  have "settled_true_north g1"
    by (rule first_pass [OF closed unshared nonempty g1])
  from after_true_north_settled [OF path_of [OF gr1] this gr1 vals r1]
  have st1: "settled_true_north f1" and grf1: "grows f f1"
    by simp_all
  from settled_pass [OF st1 g2]
  have len2: "length (entities g2) = length (entities f1)" and st2: "settled_true_north g2"
    and tn2: "\<forall>c \<in> set (?C f1). getattr g2 c ''TrueNorth'' = getattr f1 c ''TrueNorth''"
    by simp_all
  have gr2: "grows f g2"
    using grf1 grows_set_true_north [OF g2] by (rule grows_trans)
  from after_true_north_settled [OF path_of [OF gr2] st2 gr2 vals r2]
  have len3: "length (entities f2) = length (entities g2)"
    and tn3: "\<forall>c \<in> set (?C g2). getattr f2 c ''TrueNorth'' = getattr g2 c ''TrueNorth''"
    by simp_all
  have "?C f1 = ?C f" "?C g2 = ?C f"
    using grf1 gr2 by (simp_all add: contexts_grows)
  with tn2 tn3 have same: "\<forall>c \<in> set (?C f). getattr f2 c ''TrueNorth'' = getattr f1 c ''TrueNorth''"
    by simp
  have cow: "\<forall>g c d g'. getattr g c ''TrueNorth'' = Inr (Ref d) \<and> d < length (entities g)
               \<and> d \<noteq> c \<and> set_context_true_north tn c g = Inr g' \<longrightarrow>
               (if length (get_inverse g d) \<noteq> 1
                then length (entities g') = Suc (length (entities g))
                     \<and> getattr g' c ''TrueNorth'' = Inr (Ref (length (entities g)))
                     \<and> entities g' ! d = entities g ! d
                else length (entities g') = length (entities g)
                     \<and> getattr g' c ''TrueNorth'' = Inr (Ref d))"
  proof (intro allI impI, elim conjE)
    fix g c d g'
    assume "getattr g c ''TrueNorth'' = Inr (Ref d)" "d < length (entities g)" "d \<noteq> c"
      "set_context_true_north tn c g = Inr g'"
    then show "if length (get_inverse g d) \<noteq> 1
                then length (entities g') = Suc (length (entities g))
                     \<and> getattr g' c ''TrueNorth'' = Inr (Ref (length (entities g)))
                     \<and> entities g' ! d = entities g ! d
                else length (entities g') = length (entities g)
                     \<and> getattr g' c ''TrueNorth'' = Inr (Ref d)"
      by (rule copy_on_write_step)
  qed
  from len2 len3 have "length (entities f2) = length (entities f1)"
    by simp
  with same cow show ?thesis
    by (intro conjI)
qed

theorem true_north_copy_on_write_witness:
  "no_dangling modern_doc \<and> unshared_true_north modern_doc
   \<and> edit_georeferencing example_toolkit modern_doc (Some [(''Eastings'', Num 5)]) None
        (Some (PyList [0, 1])) = Inr north_doc
   \<and> edit_georeferencing example_toolkit north_doc (Some [(''Eastings'', Num 5)]) None
        (Some (PyList [0, 1])) = Inr north_doc
   \<and> length (entities north_doc) = 4
   \<and> getattr north_doc 0 ''TrueNorth'' = Inr (Ref 3)"
proof -
  have h1: "no_dangling modern_doc"
    by (simp add: no_dangling_def doc_defs refs_of_def)
  have h2: "unshared_true_north modern_doc"
    by (simp add: unshared_true_north_def north_ok_def by_type_def getattr_def doc_defs upt3)
  have h3: "seq_items (PyList [0, 1]) \<noteq> []"
    by (simp add: seq_items_def)
  have h4: "schema modern_doc \<noteq> ''IFC2X3'' \<or> by_type modern_doc ''IfcProject'' True = []"
    by (simp add: doc_defs)
  have h5: "plain_values modern_doc (dict_or_empty (Some [(''Eastings'', Num 5)]))"
    "plain_values modern_doc (dict_or_empty None)"
    by (simp_all add: plain_values_def dict_or_empty_def refs_of_def)
  have h6: "edit_georeferencing example_toolkit modern_doc (Some [(''Eastings'', Num 5)]) None
        (Some (PyList [0, 1])) = Inr north_doc"
    by (simp add: georef_defs doc_defs north_doc_def upt3)
  have upt4: "[0..<4] = [0, 1, 2, 3]"
    by (simp add: upt_rec)
  have h7: "edit_georeferencing example_toolkit north_doc (Some [(''Eastings'', Num 5)]) None
        (Some (PyList [0, 1])) = Inr north_doc"
    by (simp add: georef_defs doc_defs north_doc_def upt4)
  from true_north_copy_on_write [OF h1 h2 h3 h4 h5 h6 h7]
  have "length (entities north_doc) = length (entities north_doc)"
    by blast
  moreover have "length (entities north_doc) = 4" "getattr north_doc 0 ''TrueNorth'' = Inr (Ref 3)"
    by (simp_all add: north_doc_def getattr_def doc_defs)
  ultimately show ?thesis
    using h1 h2 h6 h7 by simp
qed

section \<open>The ratios of the true-north direction\<close>

text \<open>
  When the loop body returns, the direction of the context has the first two entries of
  the true north, and a trailing 0 unless the dimension of the context is 2; it returns
  for a dimension other than 2 only on a list, and raises on every tuple.
\<close>

lemma ensure_true_north_keeps_dimension:
  assumes t: "getattr f c ''TrueNorth'' = Inr t" and f1: "ensure_true_north t c f = Inr f1"
  shows "getattr f1 c ''CoordinateSpaceDimension'' = getattr f c ''CoordinateSpaceDimension''"
proof -
  from t have c: "c < length (entities f)"
    by (rule getattr_Inr_length)
  have keep: "getattr g c ''CoordinateSpaceDimension'' = getattr f c ''CoordinateSpaceDimension''"
    if "new_true_north c f = Inr g" for g
  proof -
    note s = new_true_north_Inr [OF that]
    have "getattr g c ''CoordinateSpaceDimension''
        = getattr (fst (create_IfcDirection f)) c ''CoordinateSpaceDimension''"
      by (simp add: getattr_setattr [OF s])
    also have "\<dots> = getattr f c ''CoordinateSpaceDimension''"
      using c by (rule getattr_create)
    finally show ?thesis .
  qed
  show ?thesis
  proof (cases "truthy t")
    case False
    with f1 show ?thesis
      by (simp add: ensure_true_north_def keep)
  next
    case True
    with f1 show ?thesis
      by (cases t) (auto simp: ensure_true_north_def keep split: if_splits)
  qed
qed

lemma true_north_ratios:
  assumes "set_context_true_north tn c f = Inr f'"
  shows "\<exists>d. getattr f' c ''TrueNorth'' = Inr (Ref d)
           \<and> (if getattr f c ''CoordinateSpaceDimension'' = Inr (Num 2)
              then getattr f' d ''DirectionRatios'' = Inr (Nums (take 2 (seq_items tn)))
              else (\<exists>xs. tn = PyList xs)
                   \<and> getattr f' d ''DirectionRatios'' = Inr (Nums (take 2 (seq_items tn) @ [0])))"
proof -
  from assms obtain t f1 where t: "getattr f c ''TrueNorth'' = Inr t"
    and f1: "ensure_true_north t c f = Inr f1"
    and f': "assign_direction_ratios tn c f1 = Inr f'"
    by (rule set_context_true_north_Inr)
  note sd = ensure_true_north_keeps_dimension [OF t f1]
  from f' obtain direction space_dimension where
    dir: "getattr f1 c ''TrueNorth'' = Inr direction"
    and dim: "getattr f1 c ''CoordinateSpaceDimension'' = Inr space_dimension"
    and set: "(if space_dimension = Num 2
               then set_direction_ratios direction (seq_slice2 tn) f1
               else ebind (seq_add_list (seq_slice2 tn) [0])
                      (\<lambda>v. set_direction_ratios direction v f1)) = Inr f'"
    unfolding assign_direction_ratios_def by (auto simp: ebind_eq_Inr)
  show ?thesis
  proof (cases "space_dimension = Num 2")
    case True
    with set obtain d where d: "direction = Ref d"
      and s: "setattr f1 d ''DirectionRatios'' (Nums (take 2 (seq_items tn))) = Inr f'"
      by (cases direction; cases tn)
        (auto simp: set_direction_ratios_def seq_slice2_def seq_items_def)
    have "getattr f' c ''TrueNorth'' = Inr (Ref d)"
      by (simp add: getattr_setattr [OF s] dir d)
    moreover have "getattr f' d ''DirectionRatios'' = Inr (Nums (take 2 (seq_items tn)))"
      by (simp add: getattr_setattr [OF s])
    ultimately show ?thesis
      using True dim sd by auto
  next
    case False
    with set obtain v where v: "seq_add_list (seq_slice2 tn) [0] = Inr v"
      and r: "set_direction_ratios direction v f1 = Inr f'"
      by (auto simp: ebind_eq_Inr)
    from v obtain xs where xs: "tn = PyList xs" "v = PyList (take 2 xs @ [0])"
      by (cases tn) (auto simp: seq_add_list_def seq_slice2_def)
    from r xs obtain d where d: "direction = Ref d"
      and s: "setattr f1 d ''DirectionRatios'' (Nums (take 2 (seq_items tn) @ [0])) = Inr f'"
      by (cases direction) (auto simp: set_direction_ratios_def seq_items_def)
    have "getattr f' c ''TrueNorth'' = Inr (Ref d)"
      by (simp add: getattr_setattr [OF s] dir d)
    moreover have "getattr f' d ''DirectionRatios'' = Inr (Nums (take 2 (seq_items tn) @ [0]))"
      by (simp add: getattr_setattr [OF s])
    ultimately show ?thesis
      using False dim sd xs(1) by auto
  qed
qed

lemma tuple_padding_raises:
  assumes "getattr f c ''CoordinateSpaceDimension'' \<noteq> Inr (Num 2)"
  shows "\<exists>e. set_context_true_north (PyTuple xs) c f = Inl e"
proof (cases "set_context_true_north (PyTuple xs) c f")
  case (Inl e)
  then show ?thesis by simp
next
  case (Inr f')
  from true_north_ratios [OF Inr] assms show ?thesis
    by auto
qed

section \<open>Properties of the styled-items traversal\<close>

lemma upt8: "[0..<8] = [0, 1, 2, 3, 4, 5, 6, 7]"
  by (simp add: upt_rec)

lemma styled_items_loop_Nil: "styled_items_loop f [] items = Some (Inr items)"
  by (subst styled_items_loop.simps) simp

lemma styled_items_loop_assignment:
  assumes "is_a (entities f ! i) ''IfcPresentationStyleAssignment''"
  shows "styled_items_loop f (rest @ [i]) items = styled_items_loop f (rest @ get_inverse f i) items"
  using assms by (subst styled_items_loop.simps) simp

lemma styled_items_loop_mapped:
  assumes "\<not> is_a (entities f ! i) ''IfcPresentationStyleAssignment''"
    and "getattr f i ''Item'' = Inr (Ref mi)" and "mi < length (entities f)"
    and "is_a (entities f ! mi) ''IfcMappedItem''"
    and "getattr f mi ''MappingSource'' = Inr (Ref ms)"
    and "getattr f ms ''MappedRepresentation'' = Inr (Ref rep)"
    and "getattr f rep ''Items'' = Inr (Refs mapped)"
  shows "styled_items_loop f (rest @ [i]) items = styled_items_loop f rest (items @ mapped)"
  using assms by (subst styled_items_loop.simps) (simp add: truthy_def)

lemma styled_items_loop_item:
  assumes "\<not> is_a (entities f ! i) ''IfcPresentationStyleAssignment''"
    and "getattr f i ''Item'' = Inr (Ref it)" and "it < length (entities f)"
    and "\<not> is_a (entities f ! it) ''IfcMappedItem''"
  shows "styled_items_loop f (rest @ [i]) items = styled_items_loop f rest (items @ [it])"
  using assms by (subst styled_items_loop.simps) (simp add: truthy_def)

text \<open>
  C8. For a style whose only referrer is a presentation-style assignment, whose only
  referrer is a styled item attached to a mapped item, \<open>get_styled_items\<close> returns
  exactly the items of the mapped representation. When these are concrete geometry items
  (neither mapped items nor assignments), neither the assignment nor the mapped item is
  in the result.
\<close>
theorem styled_items_unwrapped:
  assumes wrapped: "get_inverse f style = [assignment]"
    "is_a (entities f ! assignment) ''IfcPresentationStyleAssignment''"
    and attached: "get_inverse f assignment = [styled_item]"
    "\<not> is_a (entities f ! styled_item) ''IfcPresentationStyleAssignment''"
    "getattr f styled_item ''Item'' = Inr (Ref mapped_item)"
    and mapped: "mapped_item < length (entities f)"
    "is_a (entities f ! mapped_item) ''IfcMappedItem''"
    "getattr f mapped_item ''MappingSource'' = Inr (Ref source)"
    "getattr f source ''MappedRepresentation'' = Inr (Ref mapped_representation)"
    "getattr f mapped_representation ''Items'' = Inr (Refs items)"
    and concrete: "\<forall>i \<in> set items. \<not> is_a (entities f ! i) ''IfcMappedItem''
                      \<and> \<not> is_a (entities f ! i) ''IfcPresentationStyleAssignment''"
  shows "get_styled_items f style = Some (Inr items)
         \<and> assignment \<notin> set items \<and> mapped_item \<notin> set items"
proof -
  have "get_styled_items f style = styled_items_loop f [assignment] []"
    by (simp add: get_styled_items_def wrapped(1))
  also have "\<dots> = styled_items_loop f [styled_item] []"
    using styled_items_loop_assignment [OF wrapped(2), of "[]" "[]"] by (simp add: attached(1))
  also have "\<dots> = styled_items_loop f [] items"
    using styled_items_loop_mapped [OF attached(2,3) mapped, of "[]" "[]"] by simp
  also have "\<dots> = Some (Inr items)"
    by (simp add: styled_items_loop_Nil)
  finally have "get_styled_items f style = Some (Inr items)" .
  moreover have "assignment \<notin> set items" "mapped_item \<notin> set items"
    using concrete wrapped(2) mapped(2) by blast+
  ultimately show ?thesis
    by simp
qed

theorem styled_items_unwrapped_witness:
  "get_styled_items styled_doc 0 = Some (Inr [6, 7])"
proof -
  have inv0: "get_inverse styled_doc 0 = [1]" and inv1: "get_inverse styled_doc 1 = [2]"
    by (simp_all add: get_inverse_def refers_def refs_of_def styled_doc_def upt8)
  have types: "is_a (entities styled_doc ! 1) ''IfcPresentationStyleAssignment''"
    "\<not> is_a (entities styled_doc ! 2) ''IfcPresentationStyleAssignment''"
    "is_a (entities styled_doc ! 3) ''IfcMappedItem''"
    by (simp_all add: is_a_def ifc_subtypes_def styled_doc_def)
  have attrs: "getattr styled_doc 2 ''Item'' = Inr (Ref 3)"
    "getattr styled_doc 3 ''MappingSource'' = Inr (Ref 4)"
    "getattr styled_doc 4 ''MappedRepresentation'' = Inr (Ref 5)"
    "getattr styled_doc 5 ''Items'' = Inr (Refs [6, 7])"
    by (simp_all add: getattr_def styled_doc_def)
  have len: "3 < length (entities styled_doc)"
    by (simp add: styled_doc_def)
  have concrete: "\<forall>i \<in> set [6, 7]. \<not> is_a (entities styled_doc ! i) ''IfcMappedItem''
      \<and> \<not> is_a (entities styled_doc ! i) ''IfcPresentationStyleAssignment''"
    by (simp add: is_a_def ifc_subtypes_def styled_doc_def)
  show ?thesis
    using styled_items_unwrapped [OF inv0 types(1) inv1 types(2) attrs(1) len types(3)
        attrs(2,3,4) concrete]
    by simp
qed

end
